theory Spec2Isabelle
  imports Main "HOL-Library.Word" "HOL-Library.Monad_Syntax"
begin

unbundle bit_operations_syntax

section \<open>Python containers\<close>

text \<open>
  A Python \<open>bytes\<close>/\<open>bytearray\<close> is a list of 8-bit words; a Python \<open>int\<close> is an
  \<open>int\<close>. A raised exception (\<open>IndexError\<close> for an index outside the container,
  \<open>ValueError\<close> for a byte outside \<open>0..255\<close>) is the result \<open>None\<close>.
\<close>

type_synonym byte = "8 word"

definition py_index :: "'a list \<Rightarrow> int \<Rightarrow> nat option" where
  \<comment> \<open>the position a Python subscript refers to; a negative subscript counts from the end\<close>
  "py_index xs i =
     (if 0 \<le> i \<and> i < int (length xs) then Some (nat i)
      else if i < 0 \<and> - int (length xs) \<le> i then Some (nat (int (length xs) + i))
      else None)"

definition py_get :: "'a list \<Rightarrow> int \<Rightarrow> 'a option" where
  "py_get xs i = map_option (\<lambda>k. xs ! k) (py_index xs i)"

definition byte_at :: "byte list \<Rightarrow> int \<Rightarrow> int option" where
  \<comment> \<open>\<open>ba[i]\<close> read as a Python int\<close>
  "byte_at xs i = map_option uint (py_get xs i)"

definition byte_set :: "byte list \<Rightarrow> int \<Rightarrow> int \<Rightarrow> byte list option" where
  \<comment> \<open>\<open>ba[i] = v\<close>\<close>
  "byte_set xs i v =
     (if 0 \<le> v \<and> v < 256
      then map_option (\<lambda>k. xs[k := word_of_int v]) (py_index xs i)
      else None)"

definition py_slice :: "'a list \<Rightarrow> nat \<Rightarrow> nat \<Rightarrow> 'a list" where
  \<comment> \<open>\<open>xs[i:j]\<close> for non-negative bounds\<close>
  "py_slice xs i j = take (j - i) (drop i xs)"

definition py_set :: "'a list \<Rightarrow> int \<Rightarrow> 'a \<Rightarrow> 'a list option" where
  \<comment> \<open>\<open>xs[i] = v\<close> on a Python list\<close>
  "py_set xs i v = map_option (\<lambda>k. xs[k := v]) (py_index xs i)"

fun for_each :: "('a \<Rightarrow> 's \<Rightarrow> 's option) \<Rightarrow> 'a list \<Rightarrow> 's \<Rightarrow> 's option" where
  \<comment> \<open>\<open>for x in xs: body\<close>, where the body may raise\<close>
  "for_each body [] s = Some s"
| "for_each body (x # xs) s = do { s1 \<leftarrow> body x s; for_each body xs s1 }"

section \<open>Game Boy memory map (class MMU)\<close>

record mmu =
  rom :: "byte list"
  rom_banks :: "byte list list"
  vram :: "byte list"
  eram :: "byte list"
  wram :: "byte list"
  oam :: "byte list"
  io :: "byte list"
  hram :: "byte list"
  ie :: int
  rom_bank :: int
  ram_enabled :: bool

definition mmu_reset :: mmu where
  "mmu_reset =
     \<lparr> rom = replicate 0x8000 0,
       rom_banks = [],
       vram = replicate 0x2000 0,
       eram = replicate 0x2000 0,
       wram = replicate 0x2000 0,
       oam = replicate 0xA0 0,
       io = (replicate 0x80 0)[0x40 := 0x91, 0x47 := 0xFC],
       hram = replicate 0x7F 0,
       ie = 0,
       rom_bank = 1,
       ram_enabled = False \<rparr>"

definition load_rom :: "byte list \<Rightarrow> bool \<times> mmu" where
  "load_rom data =
     (let m0 = mmu_reset;
          m1 = m0\<lparr>rom := fold (\<lambda>i r. r[i := data ! i]) [0..<min (length data) 0x8000] (rom m0)\<rparr>;
          m2 = (if length data > 0x8000
                then m1\<lparr>rom_banks :=
                       fold (\<lambda>b bs. bs @ [py_slice data (b * 0x4000) ((b + 1) * 0x4000)])
                            [0..<length data div 0x4000] (rom_banks m1)\<rparr>
                else m1)
      in (True, m2))"

definition read :: "mmu \<Rightarrow> int \<Rightarrow> int option" where
  "read m addr0 =
     (let addr = addr0 AND 0xFFFF in
      if addr < 0x4000 then byte_at (rom m) addr
      else if addr < 0x8000 then
        (if rom_banks m \<noteq> [] \<and> rom_bank m < int (length (rom_banks m))
         then do { bank \<leftarrow> py_get (rom_banks m) (rom_bank m); byte_at bank (addr - 0x4000) }
         else byte_at (rom m) addr)
      else if addr < 0xA000 then byte_at (vram m) (addr - 0x8000)
      else if addr < 0xC000 then
        (if ram_enabled m then byte_at (eram m) (addr - 0xA000) else Some 0xFF)
      else if addr < 0xE000 then byte_at (wram m) (addr - 0xC000)
      else if addr < 0xFE00 then byte_at (wram m) (addr - 0xE000)
      else if addr < 0xFEA0 then byte_at (oam m) (addr - 0xFE00)
      else if addr < 0xFF00 then Some 0xFF
      else if addr < 0xFF80 then byte_at (io m) (addr - 0xFF00)
      else if addr < 0xFFFF then byte_at (hram m) (addr - 0xFF80)
      else Some (ie m))"

fun dma_copy :: "mmu \<Rightarrow> int \<Rightarrow> nat list \<Rightarrow> mmu option" where
  \<comment> \<open>\<open>for i in range(0xA0): self.oam[i] = self.read(src + i)\<close>\<close>
  "dma_copy m src [] = Some m"
| "dma_copy m src (i # rest) =
     do { v \<leftarrow> read m (src + int i);
          oam1 \<leftarrow> byte_set (oam m) (int i) v;
          dma_copy (m\<lparr>oam := oam1\<rparr>) src rest }"

definition mmu_write :: "mmu \<Rightarrow> int \<Rightarrow> int \<Rightarrow> mmu option" where
  \<comment> \<open>\<open>MMU.write\<close>\<close>
  "mmu_write m addr0 val0 =
     (let addr = addr0 AND 0xFFFF; val = val0 AND 0xFF in
      if addr < 0x2000 then Some (m\<lparr>ram_enabled := (val AND 0x0F = 0x0A)\<rparr>)
      else if addr < 0x4000 then
        (let m1 = m\<lparr>rom_bank := val AND 0x1F\<rparr>
         in Some (if rom_bank m1 = 0 then m1\<lparr>rom_bank := 1\<rparr> else m1))
      else if addr < 0x8000 then Some m
      else if addr < 0xA000 then
        do { v \<leftarrow> byte_set (vram m) (addr - 0x8000) val; Some (m\<lparr>vram := v\<rparr>) }
      else if addr < 0xC000 then
        (if ram_enabled m
         then do { v \<leftarrow> byte_set (eram m) (addr - 0xA000) val; Some (m\<lparr>eram := v\<rparr>) }
         else Some m)
      else if addr < 0xE000 then
        do { v \<leftarrow> byte_set (wram m) (addr - 0xC000) val; Some (m\<lparr>wram := v\<rparr>) }
      else if addr < 0xFE00 then
        do { v \<leftarrow> byte_set (wram m) (addr - 0xE000) val; Some (m\<lparr>wram := v\<rparr>) }
      else if addr < 0xFEA0 then
        do { v \<leftarrow> byte_set (oam m) (addr - 0xFE00) val; Some (m\<lparr>oam := v\<rparr>) }
      else if addr < 0xFF00 then Some m
      else if addr < 0xFF80 then
        do { m1 \<leftarrow> (if addr = 0xFF46 then dma_copy m (push_bit 8 val) [0..<0xA0] else Some m);
             v \<leftarrow> byte_set (io m1) (addr - 0xFF00) val;
             Some (m1\<lparr>io := v\<rparr>) }
      else if addr < 0xFFFF then
        do { v \<leftarrow> byte_set (hram m) (addr - 0xFF80) val; Some (m\<lparr>hram := v\<rparr>) }
      else Some (m\<lparr>ie := val\<rparr>))"

fun mmu_writes :: "mmu \<Rightarrow> (int \<times> int) list \<Rightarrow> mmu option" where
  \<comment> \<open>a sequence of \<open>MMU.write\<close> calls, stopping at the first exception\<close>
  "mmu_writes m [] = Some m"
| "mmu_writes m ((addr, val) # rest) = do { m1 \<leftarrow> mmu_write m addr val; mmu_writes m1 rest }"

definition wf_mmu :: "mmu \<Rightarrow> bool" where
  \<comment> \<open>the shape every memory map has after \<open>reset\<close>: fixed buffer sizes, full banks,
      a byte in \<open>ie\<close> and a bank selector in \<open>1..31\<close>\<close>
  "wf_mmu m \<longleftrightarrow>
     length (rom m) = 0x8000 \<and> length (vram m) = 0x2000 \<and> length (eram m) = 0x2000 \<and>
     length (wram m) = 0x2000 \<and> length (oam m) = 0xA0 \<and> length (io m) = 0x80 \<and>
     length (hram m) = 0x7F \<and> 0 \<le> ie m \<and> ie m \<le> 255 \<and>
     1 \<le> rom_bank m \<and> rom_bank m \<le> 31 \<and>
     (\<forall>b \<in> set (rom_banks m). length b = 0x4000)"

section \<open>Game Boy CPU (class CPU)\<close>

text \<open>
  The registers \<open>a, f, b, c, d, e, h, l, sp, pc\<close> of the source are the fields
  \<open>reg_a\<close> ... \<open>reg_pc\<close>; \<open>self.mmu\<close> is the field \<open>cpu_mmu\<close>. A method that
  reads or writes memory returns \<open>None\<close> when the memory access raises.
\<close>

record cpu =
  reg_a :: int
  reg_f :: int
  reg_b :: int
  reg_c :: int
  reg_d :: int
  reg_e :: int
  reg_h :: int
  reg_l :: int
  reg_sp :: int
  reg_pc :: int
  ime :: bool
  halted :: bool
  cycles :: int
  cpu_mmu :: mmu

definition cpu_reset :: "cpu \<Rightarrow> cpu" where
  "cpu_reset c =
     c\<lparr>reg_a := 0x01, reg_f := 0xB0, reg_b := 0x00, reg_c := 0x13, reg_d := 0x00,
       reg_e := 0xD8, reg_h := 0x01, reg_l := 0x4D, reg_sp := 0xFFFE, reg_pc := 0x0100,
       ime := False, halted := False, cycles := 0\<rparr>"

definition zf :: "cpu \<Rightarrow> bool" where "zf c \<longleftrightarrow> reg_f c AND 0x80 \<noteq> 0"
definition nf :: "cpu \<Rightarrow> bool" where "nf c \<longleftrightarrow> reg_f c AND 0x40 \<noteq> 0"
definition hf :: "cpu \<Rightarrow> bool" where "hf c \<longleftrightarrow> reg_f c AND 0x20 \<noteq> 0"
definition cf :: "cpu \<Rightarrow> bool" where "cf c \<longleftrightarrow> reg_f c AND 0x10 \<noteq> 0"

definition set_zf :: "bool \<Rightarrow> cpu \<Rightarrow> cpu" where
  "set_zf v c = c\<lparr>reg_f := (reg_f c AND 0x7F) OR (if v then 0x80 else 0)\<rparr>"
definition set_nf :: "bool \<Rightarrow> cpu \<Rightarrow> cpu" where
  "set_nf v c = c\<lparr>reg_f := (reg_f c AND 0xBF) OR (if v then 0x40 else 0)\<rparr>"
definition set_hf :: "bool \<Rightarrow> cpu \<Rightarrow> cpu" where
  "set_hf v c = c\<lparr>reg_f := (reg_f c AND 0xDF) OR (if v then 0x20 else 0)\<rparr>"
definition set_cf :: "bool \<Rightarrow> cpu \<Rightarrow> cpu" where
  "set_cf v c = c\<lparr>reg_f := (reg_f c AND 0xEF) OR (if v then 0x10 else 0)\<rparr>"

definition set_znhc :: "bool \<Rightarrow> bool \<Rightarrow> bool \<Rightarrow> bool \<Rightarrow> cpu \<Rightarrow> cpu" where
  \<comment> \<open>\<open>self.zf, self.nf, self.hf, self.cf = z, n, h, cy\<close>: assigned left to right\<close>
  "set_znhc z n h cy c = set_cf cy (set_hf h (set_nf n (set_zf z c)))"

definition af :: "cpu \<Rightarrow> int" where "af c = push_bit 8 (reg_a c) OR (reg_f c AND 0xF0)"
definition bc :: "cpu \<Rightarrow> int" where "bc c = push_bit 8 (reg_b c) OR reg_c c"
definition de :: "cpu \<Rightarrow> int" where "de c = push_bit 8 (reg_d c) OR reg_e c"
definition hl :: "cpu \<Rightarrow> int" where "hl c = push_bit 8 (reg_h c) OR reg_l c"

definition set_af :: "int \<Rightarrow> cpu \<Rightarrow> cpu" where
  "set_af v c = c\<lparr>reg_a := drop_bit 8 v AND 0xFF, reg_f := v AND 0xF0\<rparr>"
definition set_bc :: "int \<Rightarrow> cpu \<Rightarrow> cpu" where
  "set_bc v c = c\<lparr>reg_b := drop_bit 8 v AND 0xFF, reg_c := v AND 0xFF\<rparr>"
definition set_de :: "int \<Rightarrow> cpu \<Rightarrow> cpu" where
  "set_de v c = c\<lparr>reg_d := drop_bit 8 v AND 0xFF, reg_e := v AND 0xFF\<rparr>"
definition set_hl :: "int \<Rightarrow> cpu \<Rightarrow> cpu" where
  "set_hl v c = c\<lparr>reg_h := drop_bit 8 v AND 0xFF, reg_l := v AND 0xFF\<rparr>"

definition cpu_read :: "cpu \<Rightarrow> int \<Rightarrow> int option" where
  \<comment> \<open>\<open>self.mmu.read(addr)\<close>\<close>
  "cpu_read c addr = read (cpu_mmu c) addr"

definition cpu_write :: "cpu \<Rightarrow> int \<Rightarrow> int \<Rightarrow> cpu option" where
  \<comment> \<open>\<open>self.mmu.write(addr, val)\<close>\<close>
  "cpu_write c addr val = do { m \<leftarrow> mmu_write (cpu_mmu c) addr val; Some (c\<lparr>cpu_mmu := m\<rparr>) }"

definition fetch :: "cpu \<Rightarrow> (int \<times> cpu) option" where
  "fetch c = do { v \<leftarrow> cpu_read c (reg_pc c); Some (v, c\<lparr>reg_pc := (reg_pc c + 1) AND 0xFFFF\<rparr>) }"

definition fetch16 :: "cpu \<Rightarrow> (int \<times> cpu) option" where
  "fetch16 c = do { (lo, c1) \<leftarrow> fetch c; (hi, c2) \<leftarrow> fetch c1; Some (push_bit 8 hi OR lo, c2) }"

definition push :: "cpu \<Rightarrow> int \<Rightarrow> cpu option" where
  "push c val =
     do { let c1 = c\<lparr>reg_sp := (reg_sp c - 1) AND 0xFFFF\<rparr>;
          c2 \<leftarrow> cpu_write c1 (reg_sp c1) (drop_bit 8 val AND 0xFF);
          let c3 = c2\<lparr>reg_sp := (reg_sp c2 - 1) AND 0xFFFF\<rparr>;
          cpu_write c3 (reg_sp c3) (val AND 0xFF) }"

definition pop :: "cpu \<Rightarrow> (int \<times> cpu) option" where
  "pop c =
     do { lo \<leftarrow> cpu_read c (reg_sp c);
          let c1 = c\<lparr>reg_sp := (reg_sp c + 1) AND 0xFFFF\<rparr>;
          hi \<leftarrow> cpu_read c1 (reg_sp c1);
          let c2 = c1\<lparr>reg_sp := (reg_sp c1 + 1) AND 0xFFFF\<rparr>;
          Some (push_bit 8 hi OR lo, c2) }"

definition inc :: "cpu \<Rightarrow> int \<Rightarrow> int \<times> cpu" where
  \<comment> \<open>\<open>_inc\<close>\<close>
  "inc c v =
     (let r = (v + 1) AND 0xFF
      in (r, set_hf (v AND 0x0F = 0x0F) (set_nf False (set_zf (r = 0) c))))"

definition dec :: "cpu \<Rightarrow> int \<Rightarrow> int \<times> cpu" where
  \<comment> \<open>\<open>_dec\<close>\<close>
  "dec c v =
     (let r = (v - 1) AND 0xFF
      in (r, set_hf (v AND 0x0F = 0x00) (set_nf True (set_zf (r = 0) c))))"

definition add_hl :: "cpu \<Rightarrow> int \<Rightarrow> cpu" where
  \<comment> \<open>\<open>_add_hl\<close>\<close>
  "add_hl c v =
     (let r = hl c + v;
          c1 = set_nf False c;
          c2 = set_hf ((hl c1 AND 0xFFF) + (v AND 0xFFF) > 0xFFF) c1;
          c3 = set_cf (r > 0xFFFF) c2
      in set_hl (r AND 0xFFFF) c3)"

definition get_r :: "cpu \<Rightarrow> int \<Rightarrow> int option" where
  \<comment> \<open>\<open>_get_r\<close>: the list is built first, so memory at \<open>hl\<close> is read for every \<open>r\<close>\<close>
  "get_r c r =
     do { m \<leftarrow> cpu_read c (hl c);
          py_get [reg_b c, reg_c c, reg_d c, reg_e c, reg_h c, reg_l c, m, reg_a c] r }"

definition set_r :: "cpu \<Rightarrow> int \<Rightarrow> int \<Rightarrow> cpu option" where
  \<comment> \<open>\<open>_set_r\<close>\<close>
  "set_r c r v0 =
     (let v = v0 AND 0xFF in
      if r = 0 then Some (c\<lparr>reg_b := v\<rparr>)
      else if r = 1 then Some (c\<lparr>reg_c := v\<rparr>)
      else if r = 2 then Some (c\<lparr>reg_d := v\<rparr>)
      else if r = 3 then Some (c\<lparr>reg_e := v\<rparr>)
      else if r = 4 then Some (c\<lparr>reg_h := v\<rparr>)
      else if r = 5 then Some (c\<lparr>reg_l := v\<rparr>)
      else if r = 6 then cpu_write c (hl c) v
      else Some (c\<lparr>reg_a := v\<rparr>))"

definition alu :: "cpu \<Rightarrow> int \<Rightarrow> int \<Rightarrow> cpu" where
  \<comment> \<open>\<open>_alu\<close>\<close>
  "alu c op v =
     (if op = 0 then
        (let r = reg_a c + v;
             c1 = set_hf ((reg_a c AND 0x0F) + (v AND 0x0F) > 0x0F) c;
             c2 = set_cf (r > 0xFF) c1;
             c3 = c2\<lparr>reg_a := r AND 0xFF\<rparr>
         in set_nf False (set_zf (reg_a c3 = 0) c3))
      else if op = 1 then
        (let cy = (if cf c then 1 else 0);
             r = reg_a c + v + cy;
             c1 = set_hf ((reg_a c AND 0x0F) + (v AND 0x0F) + cy > 0x0F) c;
             c2 = set_cf (r > 0xFF) c1;
             c3 = c2\<lparr>reg_a := r AND 0xFF\<rparr>
         in set_nf False (set_zf (reg_a c3 = 0) c3))
      else if op = 2 then
        (let r = reg_a c - v;
             c1 = set_hf ((reg_a c AND 0x0F) < (v AND 0x0F)) c;
             c2 = set_cf (r < 0) c1;
             c3 = c2\<lparr>reg_a := r AND 0xFF\<rparr>
         in set_nf True (set_zf (reg_a c3 = 0) c3))
      else if op = 3 then
        (let cy = (if cf c then 1 else 0);
             r = reg_a c - v - cy;
             c1 = set_hf ((reg_a c AND 0x0F) < (v AND 0x0F) + cy) c;
             c2 = set_cf (r < 0) c1;
             c3 = c2\<lparr>reg_a := r AND 0xFF\<rparr>
         in set_nf True (set_zf (reg_a c3 = 0) c3))
      else if op = 4 then
        (let c1 = c\<lparr>reg_a := reg_a c AND v\<rparr>
         in set_znhc (reg_a c1 = 0) False True False c1)
      else if op = 5 then
        (let c1 = c\<lparr>reg_a := reg_a c XOR v\<rparr>
         in set_znhc (reg_a c1 = 0) False False False c1)
      else if op = 6 then
        (let c1 = c\<lparr>reg_a := reg_a c OR v\<rparr>
         in set_znhc (reg_a c1 = 0) False False False c1)
      else if op = 7 then
        (let r = reg_a c - v;
             c1 = set_nf True (set_zf (r AND 0xFF = 0) c);
             c2 = set_hf ((reg_a c1 AND 0x0F) < (v AND 0x0F)) c1
         in set_cf (r < 0) c2)
      else c)"

definition signed8 :: "int \<Rightarrow> int" where
  \<comment> \<open>\<open>if off > 127: off -= 256\<close>\<close>
  "signed8 off = (if off > 127 then off - 256 else off)"

definition exec_cb :: "cpu \<Rightarrow> int \<Rightarrow> (int \<times> cpu) option" where
  \<comment> \<open>\<open>_exec_cb\<close>\<close>
  "exec_cb c op =
     (let r = op AND 7 in
      do { v \<leftarrow> get_r c r;
           let cyc = (if r = 6 then 16 else 8 :: int);
           if op < 0x08 then
             (let cy = drop_bit 7 v AND 1;
                  v1 = (push_bit 1 v OR cy) AND 0xFF
              in do { c1 \<leftarrow> set_r (set_znhc (v1 = 0) False False (cy \<noteq> 0) c) r v1; Some (cyc, c1) })
           else if op < 0x10 then
             (let cy = v AND 1;
                  v1 = (drop_bit 1 v OR push_bit 7 cy) AND 0xFF
              in do { c1 \<leftarrow> set_r (set_znhc (v1 = 0) False False (cy \<noteq> 0) c) r v1; Some (cyc, c1) })
           else if op < 0x18 then
             (let cy = (if cf c then 1 else 0);
                  ncy = drop_bit 7 v AND 1;
                  v1 = (push_bit 1 v OR cy) AND 0xFF
              in do { c1 \<leftarrow> set_r (set_znhc (v1 = 0) False False (ncy \<noteq> 0) c) r v1; Some (cyc, c1) })
           else if op < 0x20 then
             (let cy = (if cf c then 1 else 0);
                  ncy = v AND 1;
                  v1 = (drop_bit 1 v OR push_bit 7 cy) AND 0xFF
              in do { c1 \<leftarrow> set_r (set_znhc (v1 = 0) False False (ncy \<noteq> 0) c) r v1; Some (cyc, c1) })
           else if op < 0x28 then
             (let cy = drop_bit 7 v AND 1;
                  v1 = push_bit 1 v AND 0xFF
              in do { c1 \<leftarrow> set_r (set_znhc (v1 = 0) False False (cy \<noteq> 0) c) r v1; Some (cyc, c1) })
           else if op < 0x30 then
             (let cy = v AND 1;
                  v1 = (drop_bit 1 v OR (v AND 0x80)) AND 0xFF
              in do { c1 \<leftarrow> set_r (set_znhc (v1 = 0) False False (cy \<noteq> 0) c) r v1; Some (cyc, c1) })
           else if op < 0x38 then
             (let v1 = (drop_bit 4 v OR push_bit 4 v) AND 0xFF
              in do { c1 \<leftarrow> set_r (set_znhc (v1 = 0) False False False c) r v1; Some (cyc, c1) })
           else if op < 0x40 then
             (let cy = v AND 1;
                  v1 = drop_bit 1 v AND 0xFF
              in do { c1 \<leftarrow> set_r (set_znhc (v1 = 0) False False (cy \<noteq> 0) c) r v1; Some (cyc, c1) })
           else if op < 0x80 then
             (let b = nat (drop_bit 3 op AND 7);
                  c1 = set_hf True (set_nf False (set_zf (\<not> (v AND push_bit b 1 \<noteq> 0)) c))
              in Some (if r = 6 then 12 else 8, c1))
           else if op < 0xC0 then
             do { c1 \<leftarrow> set_r c r (v AND NOT (push_bit (nat (drop_bit 3 op AND 7)) 1)); Some (cyc, c1) }
           else
             do { c1 \<leftarrow> set_r c r (v OR push_bit (nat (drop_bit 3 op AND 7)) 1); Some (cyc, c1) } })"

definition exec :: "cpu \<Rightarrow> int \<Rightarrow> (int \<times> cpu) option" where
  \<comment> \<open>\<open>_exec\<close>: the result is the cycle count and the state after the opcode\<close>
  "exec c op =
     (if op = 0x00 then Some (4, c)
      else if op = 0x01 then do { (v, c1) \<leftarrow> fetch16 c; Some (12, set_bc v c1) }
      else if op = 0x02 then do { c1 \<leftarrow> cpu_write c (bc c) (reg_a c); Some (8, c1) }
      else if op = 0x03 then Some (8, set_bc ((bc c + 1) AND 0xFFFF) c)
      else if op = 0x04 then (let (r, c1) = inc c (reg_b c) in Some (4, c1\<lparr>reg_b := r\<rparr>))
      else if op = 0x05 then (let (r, c1) = dec c (reg_b c) in Some (4, c1\<lparr>reg_b := r\<rparr>))
      else if op = 0x06 then do { (v, c1) \<leftarrow> fetch c; Some (8, c1\<lparr>reg_b := v\<rparr>) }
      else if op = 0x07 then
        (let cy = drop_bit 7 (reg_a c) AND 1;
             c1 = c\<lparr>reg_a := (push_bit 1 (reg_a c) OR cy) AND 0xFF\<rparr>
         in Some (4, set_znhc False False False (cy \<noteq> 0) c1))
      else if op = 0x08 then
        do { (addr, c1) \<leftarrow> fetch16 c;
             c2 \<leftarrow> cpu_write c1 addr (reg_sp c1 AND 0xFF);
             c3 \<leftarrow> cpu_write c2 (addr + 1) (drop_bit 8 (reg_sp c2) AND 0xFF);
             Some (20, c3) }
      else if op = 0x09 then Some (8, add_hl c (bc c))
      else if op = 0x0A then do { v \<leftarrow> cpu_read c (bc c); Some (8, c\<lparr>reg_a := v\<rparr>) }
      else if op = 0x0B then Some (8, set_bc ((bc c - 1) AND 0xFFFF) c)
      else if op = 0x0C then (let (r, c1) = inc c (reg_c c) in Some (4, c1\<lparr>reg_c := r\<rparr>))
      else if op = 0x0D then (let (r, c1) = dec c (reg_c c) in Some (4, c1\<lparr>reg_c := r\<rparr>))
      else if op = 0x0E then do { (v, c1) \<leftarrow> fetch c; Some (8, c1\<lparr>reg_c := v\<rparr>) }
      else if op = 0x0F then
        (let cy = reg_a c AND 1;
             c1 = c\<lparr>reg_a := (drop_bit 1 (reg_a c) OR push_bit 7 cy) AND 0xFF\<rparr>
         in Some (4, set_znhc False False False (cy \<noteq> 0) c1))
      else if op = 0x11 then do { (v, c1) \<leftarrow> fetch16 c; Some (12, set_de v c1) }
      else if op = 0x12 then do { c1 \<leftarrow> cpu_write c (de c) (reg_a c); Some (8, c1) }
      else if op = 0x13 then Some (8, set_de ((de c + 1) AND 0xFFFF) c)
      else if op = 0x14 then (let (r, c1) = inc c (reg_d c) in Some (4, c1\<lparr>reg_d := r\<rparr>))
      else if op = 0x15 then (let (r, c1) = dec c (reg_d c) in Some (4, c1\<lparr>reg_d := r\<rparr>))
      else if op = 0x16 then do { (v, c1) \<leftarrow> fetch c; Some (8, c1\<lparr>reg_d := v\<rparr>) }
      else if op = 0x17 then
        (let cy = (if cf c then 1 else 0);
             ncy = drop_bit 7 (reg_a c) AND 1;
             c1 = c\<lparr>reg_a := (push_bit 1 (reg_a c) OR cy) AND 0xFF\<rparr>
         in Some (4, set_znhc False False False (ncy \<noteq> 0) c1))
      else if op = 0x18 then
        do { (off, c1) \<leftarrow> fetch c;
             Some (12, c1\<lparr>reg_pc := (reg_pc c1 + signed8 off) AND 0xFFFF\<rparr>) }
      else if op = 0x19 then Some (8, add_hl c (de c))
      else if op = 0x1A then do { v \<leftarrow> cpu_read c (de c); Some (8, c\<lparr>reg_a := v\<rparr>) }
      else if op = 0x1B then Some (8, set_de ((de c - 1) AND 0xFFFF) c)
      else if op = 0x1C then (let (r, c1) = inc c (reg_e c) in Some (4, c1\<lparr>reg_e := r\<rparr>))
      else if op = 0x1D then (let (r, c1) = dec c (reg_e c) in Some (4, c1\<lparr>reg_e := r\<rparr>))
      else if op = 0x1E then do { (v, c1) \<leftarrow> fetch c; Some (8, c1\<lparr>reg_e := v\<rparr>) }
      else if op = 0x1F then
        (let cy = (if cf c then 1 else 0);
             ncy = reg_a c AND 1;
             c1 = c\<lparr>reg_a := (drop_bit 1 (reg_a c) OR push_bit 7 cy) AND 0xFF\<rparr>
         in Some (4, set_znhc False False False (ncy \<noteq> 0) c1))
      else if op = 0x20 then
        do { (off, c1) \<leftarrow> fetch c;
             if \<not> zf c1 then Some (12, c1\<lparr>reg_pc := (reg_pc c1 + signed8 off) AND 0xFFFF\<rparr>)
             else Some (8, c1) }
      else if op = 0x21 then do { (v, c1) \<leftarrow> fetch16 c; Some (12, set_hl v c1) }
      else if op = 0x22 then do { c1 \<leftarrow> cpu_write c (hl c) (reg_a c); Some (8, set_hl ((hl c1 + 1) AND 0xFFFF) c1) }
      else if op = 0x23 then Some (8, set_hl ((hl c + 1) AND 0xFFFF) c)
      else if op = 0x24 then (let (r, c1) = inc c (reg_h c) in Some (4, c1\<lparr>reg_h := r\<rparr>))
      else if op = 0x25 then (let (r, c1) = dec c (reg_h c) in Some (4, c1\<lparr>reg_h := r\<rparr>))
      else if op = 0x26 then do { (v, c1) \<leftarrow> fetch c; Some (8, c1\<lparr>reg_h := v\<rparr>) }
      else if op = 0x27 then
        (let a0 = reg_a c;
             (a2, c2) =
               (if \<not> nf c then
                  (let (a1, c1) = (if cf c \<or> a0 > 0x99 then (a0 + 0x60, set_cf True c) else (a0, c))
                   in (if hf c1 \<or> (a1 AND 0x0F) > 0x09 then a1 + 0x06 else a1, c1))
                else
                  (let a1 = (if cf c then a0 - 0x60 else a0)
                   in (if hf c then a1 - 0x06 else a1, c)));
             c3 = c2\<lparr>reg_a := a2 AND 0xFF\<rparr>
         in Some (4, set_hf False (set_zf (reg_a c3 = 0) c3)))
      else if op = 0x28 then
        do { (off, c1) \<leftarrow> fetch c;
             if zf c1 then Some (12, c1\<lparr>reg_pc := (reg_pc c1 + signed8 off) AND 0xFFFF\<rparr>)
             else Some (8, c1) }
      else if op = 0x29 then Some (8, add_hl c (hl c))
      else if op = 0x2A then do { v \<leftarrow> cpu_read c (hl c); let c1 = c\<lparr>reg_a := v\<rparr>; Some (8, set_hl ((hl c1 + 1) AND 0xFFFF) c1) }
      else if op = 0x2B then Some (8, set_hl ((hl c - 1) AND 0xFFFF) c)
      else if op = 0x2C then (let (r, c1) = inc c (reg_l c) in Some (4, c1\<lparr>reg_l := r\<rparr>))
      else if op = 0x2D then (let (r, c1) = dec c (reg_l c) in Some (4, c1\<lparr>reg_l := r\<rparr>))
      else if op = 0x2E then do { (v, c1) \<leftarrow> fetch c; Some (8, c1\<lparr>reg_l := v\<rparr>) }
      else if op = 0x2F then Some (4, set_hf True (set_nf True (c\<lparr>reg_a := NOT (reg_a c) AND 0xFF\<rparr>)))
      else if op = 0x30 then
        do { (off, c1) \<leftarrow> fetch c;
             if \<not> cf c1 then Some (12, c1\<lparr>reg_pc := (reg_pc c1 + signed8 off) AND 0xFFFF\<rparr>)
             else Some (8, c1) }
      else if op = 0x31 then do { (v, c1) \<leftarrow> fetch16 c; Some (12, c1\<lparr>reg_sp := v\<rparr>) }
      else if op = 0x32 then do { c1 \<leftarrow> cpu_write c (hl c) (reg_a c); Some (8, set_hl ((hl c1 - 1) AND 0xFFFF) c1) }
      else if op = 0x33 then Some (8, c\<lparr>reg_sp := (reg_sp c + 1) AND 0xFFFF\<rparr>)
      else if op = 0x34 then
        do { v \<leftarrow> cpu_read c (hl c);
             let (r, c1) = inc c v;
             c2 \<leftarrow> cpu_write c1 (hl c) r;
             Some (12, c2) }
      else if op = 0x35 then
        do { v \<leftarrow> cpu_read c (hl c);
             let (r, c1) = dec c v;
             c2 \<leftarrow> cpu_write c1 (hl c) r;
             Some (12, c2) }
      else if op = 0x36 then do { (v, c1) \<leftarrow> fetch c; c2 \<leftarrow> cpu_write c1 (hl c) v; Some (12, c2) }
      else if op = 0x37 then Some (4, set_cf True (set_hf False (set_nf False c)))
      else if op = 0x38 then
        do { (off, c1) \<leftarrow> fetch c;
             if cf c1 then Some (12, c1\<lparr>reg_pc := (reg_pc c1 + signed8 off) AND 0xFFFF\<rparr>)
             else Some (8, c1) }
      else if op = 0x39 then Some (8, add_hl c (reg_sp c))
      else if op = 0x3A then do { v \<leftarrow> cpu_read c (hl c); let c1 = c\<lparr>reg_a := v\<rparr>; Some (8, set_hl ((hl c1 - 1) AND 0xFFFF) c1) }
      else if op = 0x3B then Some (8, c\<lparr>reg_sp := (reg_sp c - 1) AND 0xFFFF\<rparr>)
      else if op = 0x3C then (let (r, c1) = inc c (reg_a c) in Some (4, c1\<lparr>reg_a := r\<rparr>))
      else if op = 0x3D then (let (r, c1) = dec c (reg_a c) in Some (4, c1\<lparr>reg_a := r\<rparr>))
      else if op = 0x3E then do { (v, c1) \<leftarrow> fetch c; Some (8, c1\<lparr>reg_a := v\<rparr>) }
      else if op = 0x3F then Some (4, set_cf (\<not> cf c) (set_hf False (set_nf False c)))
      else if 0x40 \<le> op \<and> op \<le> 0x7F then
        (if op = 0x76 then Some (4, c\<lparr>halted := True\<rparr>)
         else do { v \<leftarrow> get_r c (op AND 7);
                   c1 \<leftarrow> set_r c (drop_bit 3 op AND 7) v;
                   Some (if op AND 7 = 6 \<or> drop_bit 3 op AND 7 = 6 then 8 else 4, c1) })
      else if 0x80 \<le> op \<and> op \<le> 0xBF then
        do { v \<leftarrow> get_r c (op AND 7);
             Some (if op AND 7 = 6 then 8 else 4, alu c (drop_bit 3 op AND 7) v) }
      else if op = 0xC0 then
        (if \<not> zf c then do { (v, c1) \<leftarrow> pop c; Some (20, c1\<lparr>reg_pc := v\<rparr>) }
         else Some (8, c))
      else if op = 0xC1 then do { (v, c1) \<leftarrow> pop c; Some (12, set_bc v c1) }
      else if op = 0xC2 then
        do { (a, c1) \<leftarrow> fetch16 c;
             let c2 = (if \<not> zf c1 then c1\<lparr>reg_pc := a\<rparr> else c1);
             Some (if \<not> zf c2 then 16 else 12, c2) }
      else if op = 0xC3 then do { (v, c1) \<leftarrow> fetch16 c; Some (16, c1\<lparr>reg_pc := v\<rparr>) }
      else if op = 0xC4 then
        do { (a, c1) \<leftarrow> fetch16 c;
             if \<not> zf c1 then do { c2 \<leftarrow> push c1 (reg_pc c1); Some (24, c2\<lparr>reg_pc := a\<rparr>) }
             else Some (12, c1) }
      else if op = 0xC5 then do { c1 \<leftarrow> push c (bc c); Some (16, c1) }
      else if op = 0xC6 then do { (v, c1) \<leftarrow> fetch c; Some (8, alu c1 0 v) }
      else if op = 0xC7 then do { c1 \<leftarrow> push c (reg_pc c); Some (16, c1\<lparr>reg_pc := 0x00\<rparr>) }
      else if op = 0xC8 then
        (if zf c then do { (v, c1) \<leftarrow> pop c; Some (20, c1\<lparr>reg_pc := v\<rparr>) }
         else Some (8, c))
      else if op = 0xC9 then do { (v, c1) \<leftarrow> pop c; Some (16, c1\<lparr>reg_pc := v\<rparr>) }
      else if op = 0xCA then
        do { (a, c1) \<leftarrow> fetch16 c;
             let c2 = (if zf c1 then c1\<lparr>reg_pc := a\<rparr> else c1);
             Some (if zf c2 then 16 else 12, c2) }
      else if op = 0xCB then do { (op2, c1) \<leftarrow> fetch c; exec_cb c1 op2 }
      else if op = 0xCC then
        do { (a, c1) \<leftarrow> fetch16 c;
             if zf c1 then do { c2 \<leftarrow> push c1 (reg_pc c1); Some (24, c2\<lparr>reg_pc := a\<rparr>) }
             else Some (12, c1) }
      else if op = 0xCD then do { (a, c1) \<leftarrow> fetch16 c; c2 \<leftarrow> push c1 (reg_pc c1); Some (24, c2\<lparr>reg_pc := a\<rparr>) }
      else if op = 0xCE then do { (v, c1) \<leftarrow> fetch c; Some (8, alu c1 1 v) }
      else if op = 0xCF then do { c1 \<leftarrow> push c (reg_pc c); Some (16, c1\<lparr>reg_pc := 0x08\<rparr>) }
      else if op = 0xD0 then
        (if \<not> cf c then do { (v, c1) \<leftarrow> pop c; Some (20, c1\<lparr>reg_pc := v\<rparr>) }
         else Some (8, c))
      else if op = 0xD1 then do { (v, c1) \<leftarrow> pop c; Some (12, set_de v c1) }
      else if op = 0xD2 then
        do { (a, c1) \<leftarrow> fetch16 c;
             let c2 = (if \<not> cf c1 then c1\<lparr>reg_pc := a\<rparr> else c1);
             Some (if \<not> cf c2 then 16 else 12, c2) }
      else if op = 0xD4 then
        do { (a, c1) \<leftarrow> fetch16 c;
             if \<not> cf c1 then do { c2 \<leftarrow> push c1 (reg_pc c1); Some (24, c2\<lparr>reg_pc := a\<rparr>) }
             else Some (12, c1) }
      else if op = 0xD5 then do { c1 \<leftarrow> push c (de c); Some (16, c1) }
      else if op = 0xD6 then do { (v, c1) \<leftarrow> fetch c; Some (8, alu c1 2 v) }
      else if op = 0xD7 then do { c1 \<leftarrow> push c (reg_pc c); Some (16, c1\<lparr>reg_pc := 0x10\<rparr>) }
      else if op = 0xD8 then
        (if cf c then do { (v, c1) \<leftarrow> pop c; Some (20, c1\<lparr>reg_pc := v\<rparr>) }
         else Some (8, c))
      else if op = 0xD9 then do { (v, c1) \<leftarrow> pop c; Some (16, c1\<lparr>reg_pc := v, ime := True\<rparr>) }
      else if op = 0xDA then
        do { (a, c1) \<leftarrow> fetch16 c;
             let c2 = (if cf c1 then c1\<lparr>reg_pc := a\<rparr> else c1);
             Some (if cf c2 then 16 else 12, c2) }
      else if op = 0xDC then
        do { (a, c1) \<leftarrow> fetch16 c;
             if cf c1 then do { c2 \<leftarrow> push c1 (reg_pc c1); Some (24, c2\<lparr>reg_pc := a\<rparr>) }
             else Some (12, c1) }
      else if op = 0xDE then do { (v, c1) \<leftarrow> fetch c; Some (8, alu c1 3 v) }
      else if op = 0xDF then do { c1 \<leftarrow> push c (reg_pc c); Some (16, c1\<lparr>reg_pc := 0x18\<rparr>) }
      else if op = 0xE0 then do { (v, c1) \<leftarrow> fetch c; c2 \<leftarrow> cpu_write c1 (0xFF00 + v) (reg_a c1); Some (12, c2) }
      else if op = 0xE1 then do { (v, c1) \<leftarrow> pop c; Some (12, set_hl v c1) }
      else if op = 0xE2 then do { c1 \<leftarrow> cpu_write c (0xFF00 + reg_c c) (reg_a c); Some (8, c1) }
      else if op = 0xE5 then do { c1 \<leftarrow> push c (hl c); Some (16, c1) }
      else if op = 0xE6 then do { (v, c1) \<leftarrow> fetch c; Some (8, alu c1 4 v) }
      else if op = 0xE7 then do { c1 \<leftarrow> push c (reg_pc c); Some (16, c1\<lparr>reg_pc := 0x20\<rparr>) }
      else if op = 0xE8 then
        do { (n0, c1) \<leftarrow> fetch c;
             let n = signed8 n0;
             let r = (reg_sp c1 + n) AND 0xFFFF;
             let c2 = set_nf False (set_zf False c1);
             let c3 = set_hf ((reg_sp c2 AND 0x0F) + (n AND 0x0F) > 0x0F) c2;
             let c4 = set_cf ((reg_sp c3 AND 0xFF) + (n AND 0xFF) > 0xFF) c3;
             Some (16, c4\<lparr>reg_sp := r\<rparr>) }
      else if op = 0xE9 then Some (4, c\<lparr>reg_pc := hl c\<rparr>)
      else if op = 0xEA then do { (addr, c1) \<leftarrow> fetch16 c; c2 \<leftarrow> cpu_write c1 addr (reg_a c1); Some (16, c2) }
      else if op = 0xEE then do { (v, c1) \<leftarrow> fetch c; Some (8, alu c1 5 v) }
      else if op = 0xEF then do { c1 \<leftarrow> push c (reg_pc c); Some (16, c1\<lparr>reg_pc := 0x28\<rparr>) }
      else if op = 0xF0 then do { (n, c1) \<leftarrow> fetch c; v \<leftarrow> cpu_read c1 (0xFF00 + n); Some (12, c1\<lparr>reg_a := v\<rparr>) }
      else if op = 0xF1 then do { (v, c1) \<leftarrow> pop c; Some (12, set_af v c1) }
      else if op = 0xF2 then do { v \<leftarrow> cpu_read c (0xFF00 + reg_c c); Some (8, c\<lparr>reg_a := v\<rparr>) }
      else if op = 0xF3 then Some (4, c\<lparr>ime := False\<rparr>)
      else if op = 0xF5 then do { c1 \<leftarrow> push c (af c); Some (16, c1) }
      else if op = 0xF6 then do { (v, c1) \<leftarrow> fetch c; Some (8, alu c1 6 v) }
      else if op = 0xF7 then do { c1 \<leftarrow> push c (reg_pc c); Some (16, c1\<lparr>reg_pc := 0x30\<rparr>) }
      else if op = 0xF8 then
        do { (n0, c1) \<leftarrow> fetch c;
             let n = signed8 n0;
             let r = (reg_sp c1 + n) AND 0xFFFF;
             let c2 = set_nf False (set_zf False c1);
             let c3 = set_hf ((reg_sp c2 AND 0x0F) + (n AND 0x0F) > 0x0F) c2;
             let c4 = set_cf ((reg_sp c3 AND 0xFF) + (n AND 0xFF) > 0xFF) c3;
             Some (12, set_hl r c4) }
      else if op = 0xF9 then Some (8, c\<lparr>reg_sp := hl c\<rparr>)
      else if op = 0xFA then do { (addr, c1) \<leftarrow> fetch16 c; v \<leftarrow> cpu_read c1 addr; Some (16, c1\<lparr>reg_a := v\<rparr>) }
      else if op = 0xFB then Some (4, c\<lparr>ime := True\<rparr>)
      else if op = 0xFE then do { (v, c1) \<leftarrow> fetch c; Some (8, alu c1 7 v) }
      else if op = 0xFF then do { c1 \<leftarrow> push c (reg_pc c); Some (16, c1\<lparr>reg_pc := 0x38\<rparr>) }
      else Some (4, c))"

definition step :: "cpu \<Rightarrow> (int \<times> cpu) option" where
  "step c = (if halted c then Some (4, c) else do { (op, c1) \<leftarrow> fetch c; exec c1 op })"

fun steps :: "nat \<Rightarrow> cpu \<Rightarrow> cpu option" where
  \<comment> \<open>\<open>n\<close> successive calls of \<open>step\<close>\<close>
  "steps 0 c = Some c"
| "steps (Suc n) c = do { (cyc, c1) \<leftarrow> step c; steps n c1 }"

section \<open>CPU invariant\<close>

definition cpu_ok :: "cpu \<Rightarrow> bool" where
  \<comment> \<open>the memory map is well formed and the low nibble of \<open>F\<close> is zero\<close>
  "cpu_ok c \<longleftrightarrow> wf_mmu (cpu_mmu c) \<and> reg_f c AND 0x0F = 0"

definition good :: "('a \<times> cpu) option \<Rightarrow> bool" where
  \<comment> \<open>a method call that returned, in a state satisfying the invariant\<close>
  "good r \<longleftrightarrow> (case r of None \<Rightarrow> False | Some (x, c) \<Rightarrow> cpu_ok c)"

definition good_st :: "cpu option \<Rightarrow> bool" where
  "good_st r \<longleftrightarrow> (case r of None \<Rightarrow> False | Some c \<Rightarrow> cpu_ok c)"

section \<open>Game Boy PPU: background scanline (class PPU)\<close>

definition GB_W :: int where "GB_W = 160"
definition GB_H :: int where "GB_H = 144"

record ppu =
  framebuffer :: "int list"
  scanline_counter :: int
  frame_ready :: bool

definition tile_pattern_offset :: "int \<Rightarrow> int \<Rightarrow> int" where
  \<comment> \<open>\<open>addr\<close> in \<open>_render_scanline\<close>: the index into \<open>vram\<close> of the pattern of the tile
      whose map entry is the byte \<open>idx0\<close>; \<open>vram[k]\<close> is the byte at address \<open>0x8000 + k\<close>\<close>
  "tile_pattern_offset lcdc idx0 =
     (let tile_data = (if lcdc AND 0x10 \<noteq> 0 then 0x0000 else 0x1000);
          signed = \<not> (lcdc AND 0x10 \<noteq> 0);
          idx = (if signed \<and> idx0 > 127 then idx0 - 256 else idx0)
      in if signed then tile_data + (idx + 128) * 16 else tile_data + idx * 16)"

definition render_pixel ::
  "mmu \<Rightarrow> int \<Rightarrow> int \<Rightarrow> int list \<Rightarrow> int \<Rightarrow> int \<Rightarrow> int \<Rightarrow> int list \<Rightarrow> int list option" where
  \<comment> \<open>the body of the loop over \<open>x\<close> in \<open>_render_scanline\<close>\<close>
  "render_pixel m lcdc scx pal ly y x fb =
     (let tile_map = (if lcdc AND 0x08 \<noteq> 0 then 0x1C00 else 0x1800);
          tile_row = y div 8;
          tile_y = y mod 8;
          mx = (x + scx) AND 0xFF;
          tile_col = mx div 8;
          tile_x = mx mod 8
      in do { idx \<leftarrow> byte_at (vram m) (tile_map + tile_row * 32 + tile_col);
              let addr = tile_pattern_offset lcdc idx;
              b1 \<leftarrow> byte_at (vram m) (addr + tile_y * 2);
              b2 \<leftarrow> byte_at (vram m) (addr + tile_y * 2 + 1);
              let b = nat (7 - tile_x);
              let col = push_bit 1 (drop_bit b b2 AND 1) OR (drop_bit b b1 AND 1);
              p \<leftarrow> py_get pal col;
              py_set fb (ly * GB_W + x) p })"

definition render_scanline :: "ppu \<Rightarrow> mmu \<Rightarrow> int \<Rightarrow> ppu option" where
  \<comment> \<open>\<open>_render_scanline\<close>\<close>
  "render_scanline p m ly =
     do { lcdc \<leftarrow> byte_at (io m) 0x40;
          if lcdc AND 0x80 = 0 then Some p
          else do {
            scy \<leftarrow> byte_at (io m) 0x42;
            scx \<leftarrow> byte_at (io m) 0x43;
            bgp \<leftarrow> byte_at (io m) 0x47;
            let pal = map (\<lambda>i. drop_bit i bgp AND 3) [0, 2, 4, 6];
            if lcdc AND 0x01 \<noteq> 0 then
              do { let y = (ly + scy) AND 0xFF;
                   fb \<leftarrow> for_each (\<lambda>x fb. render_pixel m lcdc scx pal ly y (int x) fb)
                                  [0..<nat GB_W] (framebuffer p);
                   Some (p\<lparr>framebuffer := fb\<rparr>) }
            else
              do { fb \<leftarrow> for_each (\<lambda>x fb. py_set fb (ly * GB_W + int x) 0)
                                  [0..<nat GB_W] (framebuffer p);
                   Some (p\<lparr>framebuffer := fb\<rparr>) } } }"

section \<open>Game Boy system (class GameBoy)\<close>

text \<open>
  The one \<open>MMU\<close> object shared by the CPU, the PPU and the system is stored once, inside
  the CPU record. \<open>ROMInfo\<close> only feeds the window title and is left out.
\<close>

record gameboy =
  gb_cpu :: cpu
  gb_ppu :: ppu
  running :: bool
  paused :: bool
  buttons :: int

definition gb_mmu :: "gameboy \<Rightarrow> mmu" where
  "gb_mmu gb = cpu_mmu (gb_cpu gb)"

definition gb_set_mmu :: "mmu \<Rightarrow> gameboy \<Rightarrow> gameboy" where
  "gb_set_mmu m gb = gb\<lparr>gb_cpu := (gb_cpu gb)\<lparr>cpu_mmu := m\<rparr>\<rparr>"

definition gb_reset :: "gameboy \<Rightarrow> gameboy" where
  "gb_reset gb =
     (let gb1 = gb_set_mmu mmu_reset gb;
          gb2 = gb1\<lparr>gb_cpu := cpu_reset (gb_cpu gb1)\<rparr>
      in gb2\<lparr>running := False, paused := False\<rparr>)"

definition gb_load_rom :: "gameboy \<Rightarrow> byte list option \<Rightarrow> bool \<times> gameboy" where
  \<comment> \<open>\<open>GameBoy.load_rom\<close>; the second argument is what \<open>open(path).read()\<close> gives,
      \<open>None\<close> when it raises\<close>
  "gb_load_rom gb file =
     (let gb1 = gb_reset gb in
      case file of
        None \<Rightarrow> (False, gb1)
      | Some data \<Rightarrow>
          (let (ok, m) = load_rom data;
               gb2 = gb_set_mmu m gb1
           in if ok then (True, gb2) else (False, gb2)))"

definition set_button :: "gameboy \<Rightarrow> nat \<Rightarrow> bool \<Rightarrow> gameboy option" where
  "set_button gb btn pressed =
     (let gb1 = (if pressed then gb\<lparr>buttons := buttons gb AND NOT (push_bit btn 1)\<rparr>
                 else gb\<lparr>buttons := buttons gb OR push_bit btn 1\<rparr>)
      in do { joyp \<leftarrow> byte_at (io (gb_mmu gb1)) 0x00;
              gb2 \<leftarrow> (if joyp AND 0x10 = 0
                      then do { v \<leftarrow> byte_set (io (gb_mmu gb1)) 0x00
                                        ((joyp AND 0xF0) OR (buttons gb1 AND 0x0F));
                                Some (gb_set_mmu ((gb_mmu gb1)\<lparr>io := v\<rparr>) gb1) }
                      else Some gb1);
              if joyp AND 0x20 = 0
              then do { v \<leftarrow> byte_set (io (gb_mmu gb2)) 0x00
                                ((joyp AND 0xF0) OR (drop_bit 4 (buttons gb2) AND 0x0F));
                        Some (gb_set_mmu ((gb_mmu gb2)\<lparr>io := v\<rparr>) gb2) }
              else Some gb2 })"

section \<open>Initial states (the constructors)\<close>

definition cpu_init :: cpu where
  \<comment> \<open>\<open>CPU(MMU())\<close>: both constructors call \<open>reset\<close>\<close>
  "cpu_init =
     \<lparr> reg_a = 0x01, reg_f = 0xB0, reg_b = 0x00, reg_c = 0x13, reg_d = 0x00, reg_e = 0xD8,
       reg_h = 0x01, reg_l = 0x4D, reg_sp = 0xFFFE, reg_pc = 0x0100,
       ime = False, halted = False, cycles = 0, cpu_mmu = mmu_reset \<rparr>"

definition ppu_init :: ppu where
  "ppu_init = \<lparr> framebuffer = replicate (nat (GB_W * GB_H)) 0, scanline_counter = 0, frame_ready = False \<rparr>"

definition gb_init :: gameboy where
  \<comment> \<open>\<open>GameBoy()\<close>\<close>
  "gb_init = \<lparr> gb_cpu = cpu_init, gb_ppu = ppu_init, running = False, paused = False, buttons = 0xFF \<rparr>"

section \<open>CHIP-8 display (class Chip8 of chip81.0.py)\<close>

text \<open>
  The fields \<open>V\<close>, \<open>I\<close>, \<open>pc\<close>, \<open>sp\<close> of the source are \<open>c8_V\<close>, \<open>c8_I\<close>, \<open>c8_pc\<close>,
  \<open>c8_sp\<close>; the class constants \<open>W\<close>, \<open>H\<close> are \<open>c8_W\<close>, \<open>c8_H\<close>.
\<close>

definition c8_W :: int where "c8_W = 64"
definition c8_H :: int where "c8_H = 32"

record chip8 =
  memory :: "byte list"
  c8_V :: "int list"
  c8_I :: int
  c8_pc :: int
  stack :: "int list"
  c8_sp :: int
  delay_timer :: int
  sound_timer :: int
  keys :: "int list"
  gfx :: "int list"
  dirty :: "int set"
  waiting_for_key :: bool
  wait_reg :: int

definition cls :: "chip8 \<Rightarrow> chip8" where
  \<comment> \<open>\<open>_cls\<close>\<close>
  "cls s =
     (let s1 = (if list_ex (\<lambda>g. g \<noteq> 0) (gfx s)
                then s\<lparr>gfx := replicate (nat (c8_W * c8_H)) 0\<rparr> else s)
      in s1\<lparr>dirty := {0 ..< c8_W * c8_H}\<rparr>)"

definition draw_bit :: "int \<Rightarrow> int \<Rightarrow> int \<Rightarrow> nat \<Rightarrow> chip8 \<Rightarrow> chip8 option" where
  \<comment> \<open>the body of the loop over \<open>bit\<close> in \<open>_draw\<close>\<close>
  "draw_bit sprite x0 y b s =
     (if sprite AND drop_bit b 0x80 = 0 then Some s
      else
        (let x = (x0 + int b) mod c8_W;
             idx = x + y * c8_W
         in do { g \<leftarrow> py_get (gfx s) idx;
                 s1 \<leftarrow> (if g = 1
                        then do { v \<leftarrow> py_set (c8_V s) 0xF 1; Some (s\<lparr>c8_V := v\<rparr>) }
                        else Some s);
                 g1 \<leftarrow> py_get (gfx s1) idx;
                 gfx1 \<leftarrow> py_set (gfx s1) idx (g1 XOR 1);
                 Some (s1\<lparr>gfx := gfx1, dirty := insert idx (dirty s1)\<rparr>) }))"

definition draw_row :: "int \<Rightarrow> int \<Rightarrow> nat \<Rightarrow> chip8 \<Rightarrow> chip8 option" where
  \<comment> \<open>the body of the loop over \<open>row\<close> in \<open>_draw\<close>\<close>
  "draw_row x0 y0 row s =
     do { sprite \<leftarrow> byte_at (memory s) ((c8_I s + int row) AND 0x0FFF);
          let y = (y0 + int row) mod c8_H;
          for_each (draw_bit sprite x0 y) [0..<8] s }"

definition draw :: "chip8 \<Rightarrow> int \<Rightarrow> int \<Rightarrow> nat \<Rightarrow> chip8 option" where
  \<comment> \<open>\<open>_draw\<close>\<close>
  "draw s vx vy n =
     (let x0 = vx mod c8_W;
          y0 = vy mod c8_H
      in do { v \<leftarrow> py_set (c8_V s) 0xF 0;
              for_each (draw_row x0 y0) [0..<n] (s\<lparr>c8_V := v\<rparr>) })"

section \<open>CHIP-8: constructor, and the cells a sprite covers\<close>

definition FONT_START :: int where
  \<comment> \<open>\<open>Chip8.FONT_START\<close>\<close>
  "FONT_START = 0x050"

definition FONT :: "byte list" where
  \<comment> \<open>\<open>Chip8.FONT\<close>\<close>
  "FONT =
     [0xF0, 0x90, 0x90, 0x90, 0xF0,
      0x20, 0x60, 0x20, 0x20, 0x70,
      0xF0, 0x10, 0xF0, 0x80, 0xF0,
      0xF0, 0x10, 0xF0, 0x10, 0xF0,
      0x90, 0x90, 0xF0, 0x10, 0x10,
      0xF0, 0x80, 0xF0, 0x10, 0xF0,
      0xF0, 0x80, 0xF0, 0x90, 0xF0,
      0xF0, 0x10, 0x20, 0x40, 0x40,
      0xF0, 0x90, 0xF0, 0x90, 0xF0,
      0xF0, 0x90, 0xF0, 0x10, 0xF0,
      0xF0, 0x90, 0xF0, 0x90, 0x90,
      0xE0, 0x90, 0xE0, 0x90, 0xE0,
      0xF0, 0x80, 0x80, 0x80, 0xF0,
      0xE0, 0x90, 0x90, 0x90, 0xE0,
      0xF0, 0x80, 0xF0, 0x80, 0xF0,
      0xF0, 0x80, 0xF0, 0x80, 0x80]"

definition chip8_init :: chip8 where
  \<comment> \<open>the machine after \<open>__init__\<close>: the wait state is cleared, then \<open>reset()\<close> loads the font\<close>
  "chip8_init =
     \<lparr> memory = fold (\<lambda>(i, b) m. m[nat (FONT_START + int i) := b]) (enumerate 0 FONT)
                     (replicate 4096 0),
       c8_V = replicate 16 0, c8_I = 0, c8_pc = 0x200, stack = replicate 16 0, c8_sp = 0,
       delay_timer = 0, sound_timer = 0, keys = replicate 16 0,
       gfx = replicate (nat (c8_W * c8_H)) 0, dirty = {},
       waiting_for_key = False, wait_reg = 0 \<rparr>"

definition pixel :: "nat \<Rightarrow> nat \<Rightarrow> chip8 \<Rightarrow> int" where
  \<comment> \<open>the display cell at column \<open>x\<close>, row \<open>y\<close>: \<open>gfx[x + y * W]\<close>\<close>
  "pixel x y s = gfx s ! (x + y * nat c8_W)"

definition wf_chip8 :: "chip8 \<Rightarrow> bool" where
  \<comment> \<open>the buffer sizes \<open>reset()\<close> gives and no opcode changes\<close>
  "wf_chip8 s \<longleftrightarrow> length (memory s) = 4096 \<and> length (c8_V s) = 16 \<and> length (gfx s) = 2048"

definition sprite_byte :: "chip8 \<Rightarrow> nat \<Rightarrow> int" where
  \<comment> \<open>\<open>self.memory[(self.I + row) & 0x0FFF]\<close>\<close>
  "sprite_byte s row = uint (memory s ! nat ((c8_I s + int row) AND 0x0FFF))"

definition lit :: "int \<Rightarrow> nat \<Rightarrow> bool" where
  \<comment> \<open>bit \<open>b\<close> of the sprite byte is set: \<open>(sprite & (0x80 >> b)) != 0\<close>\<close>
  "lit sprite b \<longleftrightarrow> sprite AND drop_bit b 0x80 \<noteq> 0"

definition cell :: "int \<Rightarrow> int \<Rightarrow> nat \<Rightarrow> nat \<Rightarrow> int" where
  \<comment> \<open>\<open>idx\<close> in \<open>_draw\<close> for sprite bit \<open>(row, b)\<close>: both coordinates wrap around\<close>
  "cell x0 y0 row b = (x0 + int b) mod c8_W + ((y0 + int row) mod c8_H) * c8_W"

definition sprite_covers :: "chip8 \<Rightarrow> int \<Rightarrow> int \<Rightarrow> nat \<Rightarrow> nat \<Rightarrow> bool" where
  \<comment> \<open>display cell \<open>k\<close> is hit by a set bit of the \<open>n\<close>-row sprite at \<open>I\<close>\<close>
  "sprite_covers s vx vy n k \<longleftrightarrow>
     (\<exists>row<n. \<exists>b<8. lit (sprite_byte s row) b \<and> int k = cell (vx mod c8_W) (vy mod c8_H) row b)"

definition toggle :: "int \<Rightarrow> chip8 \<Rightarrow> chip8" where
  \<comment> \<open>the effect of the loop body of \<open>_draw\<close> on one cell, when nothing raises\<close>
  "toggle idx s =
     s\<lparr>c8_V := (if gfx s ! nat idx = 1 then (c8_V s)[0xF := 1] else c8_V s),
       gfx := (gfx s)[nat idx := gfx s ! nat idx XOR 1],
       dirty := insert idx (dirty s)\<rparr>"

definition row_cells :: "chip8 \<Rightarrow> int \<Rightarrow> int \<Rightarrow> nat \<Rightarrow> int list" where
  \<comment> \<open>the cells written for one sprite row, in the order of the loop\<close>
  "row_cells s x0 y0 row = map (cell x0 y0 row) (filter (lit (sprite_byte s row)) [0..<8])"

definition sprite_cells :: "chip8 \<Rightarrow> int \<Rightarrow> int \<Rightarrow> nat \<Rightarrow> int list" where
  \<comment> \<open>the cells written by \<open>_draw\<close>, in the order of the loops\<close>
  "sprite_cells s x0 y0 n = concat (map (row_cells s x0 y0) [0..<n])"

section \<open>CHIP-8 display, second variant (class Chip8 of catschip8emu1.x1.5.26.py)\<close>

text \<open>
  The second CHIP-8 file keeps its memory as a list of integers and draws inside the
  opcode dispatch of \<open>cycle\<close>. Its fields \<open>V\<close>, \<open>I\<close>, \<open>pc\<close>, \<open>sp\<close>, \<open>stack\<close>, \<open>gfx\<close>,
  \<open>keys\<close> are \<open>V2\<close>, \<open>I2\<close>, \<open>pc2\<close>, \<open>sp2\<close>, \<open>stack2\<close>, \<open>gfx2\<close>, \<open>keys2\<close> here; the random
  generator \<open>rng\<close> plays no part in drawing and is left out. \<open>x\<close> and \<open>y\<close> are the register
  numbers decoded from the opcode, \<open>(opcode & 0x0F00) >> 8\<close> and \<open>(opcode & 0x00F0) >> 4\<close>,
  and \<open>n\<close> is \<open>opcode & 0x000F\<close>.
\<close>

definition SCR_W :: int where "SCR_W = 64"
definition SCR_H :: int where "SCR_H = 32"

record chip8b =
  mem :: "int list"
  V2 :: "int list"
  I2 :: int
  pc2 :: int
  sp2 :: int
  stack2 :: "int list"
  delay :: int
  sound :: int
  draw_flag :: bool
  gfx2 :: "int list"
  keys2 :: "int list"

definition FONTSET :: "int list" where
  \<comment> \<open>\<open>FONTSET\<close>\<close>
  "FONTSET =
     [0xF0, 0x90, 0x90, 0x90, 0xF0,
      0x20, 0x60, 0x20, 0x20, 0x70,
      0xF0, 0x10, 0xF0, 0x80, 0xF0,
      0xF0, 0x10, 0xF0, 0x10, 0xF0,
      0x90, 0x90, 0xF0, 0x10, 0x10,
      0xF0, 0x80, 0xF0, 0x10, 0xF0,
      0xF0, 0x80, 0xF0, 0x90, 0xF0,
      0xF0, 0x10, 0x20, 0x40, 0x40,
      0xF0, 0x90, 0xF0, 0x90, 0xF0,
      0xF0, 0x90, 0xF0, 0x10, 0xF0,
      0xF0, 0x90, 0xF0, 0x90, 0x90,
      0xE0, 0x90, 0xE0, 0x90, 0xE0,
      0xF0, 0x80, 0x80, 0x80, 0xF0,
      0xE0, 0x90, 0x90, 0x90, 0xE0,
      0xF0, 0x80, 0xF0, 0x80, 0xF0,
      0xF0, 0x80, 0xF0, 0x80, 0x80]"

definition chip8b_init :: chip8b where
  \<comment> \<open>the machine after \<open>__init__\<close>: the font is loaded at address 0\<close>
  "chip8b_init =
     \<lparr> mem = fold (\<lambda>(i, b) m. m[i := b]) (enumerate 0 FONTSET) (replicate 4096 0),
       V2 = replicate 16 0, I2 = 0, pc2 = 0x200, sp2 = 0, stack2 = replicate 16 0,
       delay = 0, sound = 0, draw_flag = False,
       gfx2 = replicate (nat (SCR_W * SCR_H)) 0, keys2 = replicate 16 0 \<rparr>"

definition drw2_bit :: "int \<Rightarrow> int \<Rightarrow> int \<Rightarrow> nat \<Rightarrow> nat \<Rightarrow> chip8b \<Rightarrow> chip8b option" where
  \<comment> \<open>the body of the loop over \<open>col\<close> in the DXYN branch\<close>
  "drw2_bit sprite_b vx vy row col t =
     (if sprite_b AND drop_bit col 0x80 \<noteq> 0 then
        (let X = (vx + int col) mod SCR_W;
             Y = (vy + int row) mod SCR_H;
             idx = Y * SCR_W + X
         in do { g \<leftarrow> py_get (gfx2 t) idx;
                 t1 \<leftarrow> (if g = 1
                        then do { v \<leftarrow> py_set (V2 t) 0xF 1; Some (t\<lparr>V2 := v\<rparr>) }
                        else Some t);
                 g1 \<leftarrow> py_get (gfx2 t1) idx;
                 gfx1 \<leftarrow> py_set (gfx2 t1) idx (g1 XOR 1);
                 Some (t1\<lparr>gfx2 := gfx1\<rparr>) })
      else Some t)"

definition drw2_row :: "int \<Rightarrow> int \<Rightarrow> nat \<Rightarrow> chip8b \<Rightarrow> chip8b option" where
  \<comment> \<open>the body of the loop over \<open>row\<close> in the DXYN branch\<close>
  "drw2_row vx vy row t =
     do { sprite_b \<leftarrow> py_get (mem t) (I2 t + int row);
          for_each (drw2_bit sprite_b vx vy row) [0..<8] t }"

definition drw2 :: "chip8b \<Rightarrow> int \<Rightarrow> int \<Rightarrow> nat \<Rightarrow> chip8b option" where
  \<comment> \<open>the DXYN branch of \<open>cycle\<close>\<close>
  "drw2 t x y n =
     do { vx \<leftarrow> py_get (V2 t) x;
          vy \<leftarrow> py_get (V2 t) y;
          v \<leftarrow> py_set (V2 t) 0xF 0;
          t1 \<leftarrow> for_each (drw2_row vx vy) [0..<n] (t\<lparr>V2 := v\<rparr>);
          Some (t1\<lparr>draw_flag := True\<rparr>) }"

definition pixel2 :: "nat \<Rightarrow> nat \<Rightarrow> chip8b \<Rightarrow> int" where
  \<comment> \<open>the display cell at column \<open>x\<close>, row \<open>y\<close>: \<open>gfx[y * SCR_W + x]\<close>\<close>
  "pixel2 x y t = gfx2 t ! (y * nat SCR_W + x)"

definition wf_chip8b :: "chip8b \<Rightarrow> bool" where
  \<comment> \<open>the buffer sizes \<open>__init__\<close> gives and no opcode changes\<close>
  "wf_chip8b t \<longleftrightarrow> length (mem t) = 4096 \<and> length (V2 t) = 16 \<and> length (gfx2 t) = 2048"

definition cell2 :: "int \<Rightarrow> int \<Rightarrow> nat \<Rightarrow> nat \<Rightarrow> int" where
  \<comment> \<open>\<open>idx\<close> in the DXYN branch for sprite bit \<open>(row, col)\<close>: both coordinates wrap around\<close>
  "cell2 vx vy row col = ((vy + int row) mod SCR_H) * SCR_W + (vx + int col) mod SCR_W"

definition sprite_covers2 :: "chip8b \<Rightarrow> int \<Rightarrow> int \<Rightarrow> nat \<Rightarrow> nat \<Rightarrow> bool" where
  \<comment> \<open>display cell \<open>k\<close> is hit by a set bit of the \<open>n\<close>-row sprite at \<open>I\<close>\<close>
  "sprite_covers2 t vx vy n k \<longleftrightarrow>
     (\<exists>row<n. \<exists>col<8. lit (mem t ! nat (I2 t + int row)) col \<and> int k = cell2 vx vy row col)"

definition as_chip81 :: "chip8b \<Rightarrow> chip8" where
  \<comment> \<open>the machine of the first file with the same registers, memory and display\<close>
  "as_chip81 t =
     \<lparr> memory = map word_of_int (mem t), c8_V = V2 t, c8_I = I2 t, c8_pc = pc2 t,
       stack = stack2 t, c8_sp = sp2 t, delay_timer = delay t, sound_timer = sound t,
       keys = keys2 t, gfx = gfx2 t, dirty = {}, waiting_for_key = False, wait_reg = 0 \<rparr>"

definition same_display :: "chip8 \<Rightarrow> chip8b \<Rightarrow> bool" where
  \<comment> \<open>the two machines agree on what drawing reads and writes\<close>
  "same_display s t \<longleftrightarrow>
     gfx s = gfx2 t \<and> c8_V s = V2 t \<and> memory s = map word_of_int (mem t) \<and> c8_I s = I2 t"

section \<open>Memory map: basic facts\<close>

lemma mask16_bounds: "0 \<le> (x::int) AND 0xFFFF" "(x::int) AND 0xFFFF \<le> 0xFFFF"
  by (simp_all add: AND_upper2')

lemma mask8_bounds: "0 \<le> (x::int) AND 0xFF" "(x::int) AND 0xFF < 256"
proof -
  show "0 \<le> x AND 0xFF" by simp
  have "x AND 0xFF \<le> 0xFF" by (simp add: AND_upper2')
  then show "x AND 0xFF < 256" by simp
qed

lemma py_get_in_range: "0 \<le> i \<Longrightarrow> i < int (length xs) \<Longrightarrow> py_get xs i = Some (xs ! nat i)"
  by (simp add: py_get_def py_index_def)

lemma byte_at_in_range:
  "0 \<le> i \<Longrightarrow> i < int (length xs) \<Longrightarrow> byte_at xs i = Some (uint (xs ! nat i))"
  by (simp add: byte_at_def py_get_in_range)

lemma byte_set_in_range:
  "0 \<le> i \<Longrightarrow> i < int (length xs) \<Longrightarrow> 0 \<le> v \<Longrightarrow> v < 256 \<Longrightarrow>
   byte_set xs i v = Some (xs[nat i := word_of_int v])"
  by (simp add: byte_set_def py_index_def)

lemma uint_byte_bounds: "0 \<le> uint (w::byte)" "uint (w::byte) \<le> 255"
proof -
  show "0 \<le> uint w" by simp
  have "uint w < 2 ^ 8" using uint_lt2p [of w] by simp
  then show "uint w \<le> 255" by simp
qed

lemma read_wf:
  assumes wf: "wf_mmu m"
  shows "\<exists>v. read m addr = Some v \<and> 0 \<le> v \<and> v \<le> 255 \<and>
     (0xFEA0 \<le> addr AND 0xFFFF \<and> addr AND 0xFFFF < 0xFF00 \<longrightarrow> v = 0xFF) \<and>
     (0xA000 \<le> addr AND 0xFFFF \<and> addr AND 0xFFFF < 0xC000 \<and> \<not> ram_enabled m \<longrightarrow> v = 0xFF) \<and>
     (0x4000 \<le> addr AND 0xFFFF \<and> addr AND 0xFFFF < 0x8000 \<and> int (length (rom_banks m)) \<le> rom_bank m
        \<longrightarrow> v = uint (rom m ! nat (addr AND 0xFFFF)))"
proof -
  define a where "a = addr AND 0xFFFF"
  have a0: "0 \<le> a" and a1: "a \<le> 0xFFFF" unfolding a_def by (rule mask16_bounds)+
  note L = wf [unfolded wf_mmu_def]
  have bank: "length (rom_banks m ! nat (rom_bank m)) = 0x4000"
    if "rom_bank m < int (length (rom_banks m))"
  proof -
    from that L have "nat (rom_bank m) < length (rom_banks m)" by linarith
    then have "rom_banks m ! nat (rom_bank m) \<in> set (rom_banks m)" by (rule nth_mem)
    with L show ?thesis by blast
  qed
  have bankget: "py_get (rom_banks m) (rom_bank m) = Some (rom_banks m ! nat (rom_bank m))"
    if "rom_bank m < int (length (rom_banks m))"
    using that L by (intro py_get_in_range) auto
  consider "a < 0x4000" | "0x4000 \<le> a" "a < 0x8000" | "0x8000 \<le> a" "a < 0xA000"
    | "0xA000 \<le> a" "a < 0xC000" | "0xC000 \<le> a" "a < 0xE000" | "0xE000 \<le> a" "a < 0xFE00"
    | "0xFE00 \<le> a" "a < 0xFEA0" | "0xFEA0 \<le> a" "a < 0xFF00" | "0xFF00 \<le> a" "a < 0xFF80"
    | "0xFF80 \<le> a" "a < 0xFFFF" | "a = 0xFFFF"
    using a0 a1 by linarith
  then show ?thesis
  proof cases
    case 1
    then show ?thesis using a0 L
      by (simp add: read_def a_def [symmetric] byte_at_in_range uint_byte_bounds)
  next
    case 2
    define sel where "sel \<longleftrightarrow> rom_banks m \<noteq> [] \<and> rom_bank m < int (length (rom_banks m))"
    have r2: "read m addr =
        (if sel then py_get (rom_banks m) (rom_bank m) \<bind> (\<lambda>bank. byte_at bank (a - 0x4000))
         else byte_at (rom m) a)"
      using 2 by (simp add: read_def a_def [symmetric] sel_def)
    show ?thesis
    proof (cases sel)
      case True
      then have lt: "rom_bank m < int (length (rom_banks m))" by (simp add: sel_def)
      have "read m addr = Some (uint (rom_banks m ! nat (rom_bank m) ! nat (a - 0x4000)))"
        using True 2 bank [OF lt] bankget [OF lt] by (simp add: r2 byte_at_in_range)
      then show ?thesis using 2 lt
        by (simp add: a_def [symmetric] uint_byte_bounds)
    next
      case False
      have "read m addr = Some (uint (rom m ! nat a))"
        using False 2 a0 L by (simp add: r2 byte_at_in_range)
      then show ?thesis using 2
        by (simp add: a_def [symmetric] uint_byte_bounds)
    qed
  next
    case 3
    then show ?thesis using L
      by (simp add: read_def a_def [symmetric] byte_at_in_range uint_byte_bounds)
  next
    case 4
    then show ?thesis using L
      by (simp add: read_def a_def [symmetric] byte_at_in_range uint_byte_bounds)
  next
    case 5
    then show ?thesis using L
      by (simp add: read_def a_def [symmetric] byte_at_in_range uint_byte_bounds)
  next
    case 6
    then show ?thesis using L
      by (simp add: read_def a_def [symmetric] byte_at_in_range uint_byte_bounds)
  next
    case 7
    then show ?thesis using L
      by (simp add: read_def a_def [symmetric] byte_at_in_range uint_byte_bounds)
  next
    case 8
    then show ?thesis using L
      by (simp add: read_def a_def [symmetric])
  next
    case 9
    then show ?thesis using L
      by (simp add: read_def a_def [symmetric] byte_at_in_range uint_byte_bounds)
  next
    case 10
    then show ?thesis using L
      by (simp add: read_def a_def [symmetric] byte_at_in_range uint_byte_bounds)
  next
    case 11
    then show ?thesis using L
      by (simp add: read_def a_def [symmetric])
  qed
qed

lemma wf_mmu_reset: "wf_mmu mmu_reset"
  by (simp add: wf_mmu_def mmu_reset_def)

lemma fold_copy_prefix:
  "k \<le> length data \<Longrightarrow> k \<le> length r0 \<Longrightarrow>
   fold (\<lambda>i r. r[i := data ! i]) [0..<k] r0 = take k data @ drop k r0"
proof (induction k)
  case 0
  then show ?case by simp
next
  case (Suc k)
  then have IH: "fold (\<lambda>i r. r[i := data ! i]) [0..<k] r0 = take k data @ drop k r0" by simp
  have lk: "length (take k data) = k" using Suc.prems by simp
  have "(take k data @ drop k r0)[k := data ! k] = take k data @ (drop k r0)[0 := data ! k]"
    using lk by (simp add: list_update_append)
  also have "(drop k r0)[0 := data ! k] = data ! k # drop (Suc k) r0"
    using Suc.prems by (cases "drop k r0") (auto simp: drop_Suc tl_drop dest: arg_cong [where f = tl])
  also have "take k data @ data ! k # drop (Suc k) r0 = take (Suc k) data @ drop (Suc k) r0"
    using Suc.prems by (simp add: take_Suc_conv_app_nth)
  finally show ?case using IH by simp
qed

lemma fold_append_banks:
  "fold (\<lambda>b bs. bs @ [f b]) [0..<n] acc = acc @ map f [0..<n]"
  by (induction n) simp_all

lemma load_rom_ok: "fst (load_rom data) = True"
  by (simp add: load_rom_def Let_def)

lemma rom_load_rom:
  "rom (snd (load_rom data)) = take 0x8000 data @ replicate (0x8000 - length data) 0"
proof -
  define k where "k = min (length data) 0x8000"
  have "fold (\<lambda>i r. r[i := data ! i]) [0..<k] (replicate 0x8000 (0::byte))
        = take k data @ drop k (replicate 0x8000 0)"
    by (rule fold_copy_prefix) (simp_all add: k_def)
  also have "take k data = take 0x8000 data" by (simp add: k_def min_def)
  also have "drop k (replicate 0x8000 (0::byte)) = replicate (0x8000 - length data) 0"
    by (simp add: k_def min_def)
  finally have F: "fold (\<lambda>i r. r[i := data ! i]) [0..<k] (replicate 0x8000 (0::byte))
        = take 0x8000 data @ replicate (0x8000 - length data) 0" .
  have "rom (snd (load_rom data)) = fold (\<lambda>i r. r[i := data ! i]) [0..<k] (replicate 0x8000 0)"
    unfolding load_rom_def Let_def mmu_reset_def k_def by simp
  with F show ?thesis by simp
qed

lemma rom_banks_load_rom:
  "rom_banks (snd (load_rom data)) =
     (if length data > 0x8000
      then map (\<lambda>b. py_slice data (b * 0x4000) ((b + 1) * 0x4000)) [0..<length data div 0x4000]
      else [])"
  by (simp add: load_rom_def Let_def mmu_reset_def fold_append_banks)

lemma load_rom_others:
  "vram (snd (load_rom data)) = vram mmu_reset"
  "eram (snd (load_rom data)) = eram mmu_reset"
  "wram (snd (load_rom data)) = wram mmu_reset"
  "oam (snd (load_rom data)) = oam mmu_reset"
  "io (snd (load_rom data)) = io mmu_reset"
  "hram (snd (load_rom data)) = hram mmu_reset"
  "ie (snd (load_rom data)) = ie mmu_reset"
  "rom_bank (snd (load_rom data)) = rom_bank mmu_reset"
  "ram_enabled (snd (load_rom data)) = ram_enabled mmu_reset"
  by (simp_all add: load_rom_def Let_def)

lemma py_slice_full_bank:
  assumes "b < length data div 0x4000"
  shows "length (py_slice data (b * 0x4000) ((b + 1) * 0x4000)) = 0x4000"
proof -
  from assms have "Suc b \<le> length data div 0x4000" by simp
  then have "Suc b * 0x4000 \<le> length data div 0x4000 * 0x4000" by (rule mult_le_mono1)
  also have "\<dots> \<le> length data" by simp
  finally have "b * 0x4000 + 0x4000 \<le> length data" by simp
  then show ?thesis by (simp add: py_slice_def)
qed

lemma wf_load_rom: "wf_mmu (snd (load_rom data))"
proof -
  define f where "f = (\<lambda>b. py_slice data (b * 0x4000) ((b + 1) * 0x4000))"
  have "length (rom (snd (load_rom data))) = 0x8000"
    by (simp add: rom_load_rom)
  moreover have "\<forall>bk \<in> set (rom_banks (snd (load_rom data))). length bk = 0x4000"
  proof
    fix bk assume "bk \<in> set (rom_banks (snd (load_rom data)))"
    then have "bk \<in> set (map f [0..<length data div 0x4000])"
      unfolding rom_banks_load_rom f_def by (simp split: if_splits)
    then obtain b where "b < length data div 0x4000" "bk = f b" by auto
    then show "length bk = 0x4000" using py_slice_full_bank [of b data] by (simp add: f_def)
  qed
  ultimately show ?thesis
    using wf_mmu_reset by (simp add: wf_mmu_def load_rom_others)
qed


lemma mask5_bounds: "0 \<le> (x::int) AND 0x1F" "(x::int) AND 0x1F \<le> 31"
  by (simp_all add: AND_upper2')

lemma read_Some: "wf_mmu m \<Longrightarrow> \<exists>v. read m addr = Some v \<and> 0 \<le> v \<and> v < 256"
  using read_wf [of m addr] by force

lemma dma_copy_wf:
  "wf_mmu m \<Longrightarrow> \<forall>i \<in> set ixs. i < 0xA0 \<Longrightarrow>
   \<exists>m'. dma_copy m src ixs = Some m' \<and> wf_mmu m' \<and> m' = m\<lparr>oam := oam m'\<rparr>"
proof (induction ixs arbitrary: m)
  case Nil
  then show ?case by simp
next
  case (Cons i ixs)
  from read_Some [OF Cons.prems(1)] obtain v where
    v: "read m (src + int i) = Some v" "0 \<le> v" "v < 256" by blast
  from Cons.prems have i: "i < length (oam m)" by (simp add: wf_mmu_def)
  then have bs: "byte_set (oam m) (int i) v = Some ((oam m)[i := word_of_int v])"
    using v by (simp add: byte_set_in_range)
  define m1 where "m1 = m\<lparr>oam := (oam m)[i := word_of_int v]\<rparr>"
  have wf1: "wf_mmu m1" using Cons.prems(1) by (simp add: m1_def wf_mmu_def)
  from Cons.IH [OF wf1] Cons.prems(2) obtain m' where
    m': "dma_copy m1 src ixs = Some m'" "wf_mmu m'" "m' = m1\<lparr>oam := oam m'\<rparr>" by auto
  have "dma_copy m src (i # ixs) = Some m'"
    using v bs m'(1) by (simp add: m1_def)
  moreover have "m' = m\<lparr>oam := oam m'\<rparr>"
    using m'(3) by (simp add: m1_def)
  ultimately show ?case using m'(2) by blast
qed

lemma mmu_write_wf:
  assumes wf: "wf_mmu m"
  shows "\<exists>m'. mmu_write m addr val = Some m' \<and> wf_mmu m' \<and>
               rom m' = rom m \<and> rom_banks m' = rom_banks m"
proof -
  define a where "a = addr AND 0xFFFF"
  define v where "v = val AND 0xFF"
  have a0: "0 \<le> a" and a1: "a \<le> 0xFFFF" unfolding a_def by (rule mask16_bounds)+
  have v0: "0 \<le> v" and v1: "v < 256" unfolding v_def by (rule mask8_bounds)+
  note L = wf [unfolded wf_mmu_def]
  have b1: "v AND 0x1F \<le> 31" by (rule mask5_bounds)
  have "0 \<le> v AND 0x1F" by (rule mask5_bounds)
  then have b0: "v AND 0x1F \<noteq> 0 \<Longrightarrow> 1 \<le> v AND 0x1F" by linarith
  consider "a < 0x2000" | "0x2000 \<le> a" "a < 0x4000" | "0x4000 \<le> a" "a < 0x8000"
    | "0x8000 \<le> a" "a < 0xA000"
    | "0xA000 \<le> a" "a < 0xC000" | "0xC000 \<le> a" "a < 0xE000" | "0xE000 \<le> a" "a < 0xFE00"
    | "0xFE00 \<le> a" "a < 0xFEA0" | "0xFEA0 \<le> a" "a < 0xFF00" | "0xFF00 \<le> a" "a < 0xFF80"
    | "0xFF80 \<le> a" "a < 0xFFFF" | "a = 0xFFFF"
    using a0 a1 by linarith
  then show ?thesis
  proof cases
    case 1
    then show ?thesis using L
      by (simp add: mmu_write_def a_def [symmetric] v_def [symmetric] wf_mmu_def)
  next
    case 2
    then show ?thesis using L b0 b1
      by (simp add: mmu_write_def a_def [symmetric] v_def [symmetric] wf_mmu_def Let_def)
  next
    case 3
    then show ?thesis using wf
      by (simp add: mmu_write_def a_def [symmetric] v_def [symmetric])
  next
    case 4
    then show ?thesis using L v0 v1
      by (simp add: mmu_write_def a_def [symmetric] v_def [symmetric] wf_mmu_def byte_set_in_range)
  next
    case 5
    then show ?thesis using L v0 v1
      by (simp add: mmu_write_def a_def [symmetric] v_def [symmetric] wf_mmu_def byte_set_in_range)
  next
    case 6
    then show ?thesis using L v0 v1
      by (simp add: mmu_write_def a_def [symmetric] v_def [symmetric] wf_mmu_def byte_set_in_range)
  next
    case 7
    then show ?thesis using L v0 v1
      by (simp add: mmu_write_def a_def [symmetric] v_def [symmetric] wf_mmu_def byte_set_in_range)
  next
    case 8
    then show ?thesis using L v0 v1
      by (simp add: mmu_write_def a_def [symmetric] v_def [symmetric] wf_mmu_def byte_set_in_range)
  next
    case 9
    then show ?thesis using wf
      by (simp add: mmu_write_def a_def [symmetric] v_def [symmetric])
  next
    case 10
    have "\<exists>m1. (if a = 0xFF46 then dma_copy m (push_bit 8 v) [0..<0xA0] else Some m) = Some m1
               \<and> wf_mmu m1 \<and> rom m1 = rom m \<and> rom_banks m1 = rom_banks m"
    proof (cases "a = 0xFF46")
      case True
      from dma_copy_wf [OF wf, of "[0..<0xA0]" "push_bit 8 v"] obtain m1 where
        "dma_copy m (push_bit 8 v) [0..<0xA0] = Some m1" "wf_mmu m1" "m1 = m\<lparr>oam := oam m1\<rparr>"
        by auto
      moreover from this(3) have "rom m1 = rom m" "rom_banks m1 = rom_banks m"
        by (metis mmu.select_convs(1) mmu.surjective mmu.update_convs(6),
            metis mmu.select_convs(2) mmu.surjective mmu.update_convs(6))
      ultimately show ?thesis using True by simp
    next
      case False
      then show ?thesis using wf by simp
    qed
    then obtain m1 where m1:
      "(if a = 0xFF46 then dma_copy m (push_bit 8 v) [0..<0xA0] else Some m) = Some m1"
      "wf_mmu m1" "rom m1 = rom m" "rom_banks m1 = rom_banks m" by blast
    from m1(2) have len: "length (io m1) = 0x80" by (simp add: wf_mmu_def)
    have bs: "byte_set (io m1) (a - 0xFF00) v = Some ((io m1)[nat (a - 0xFF00) := word_of_int v])"
      using 10 len v0 v1 by (intro byte_set_in_range) simp_all
    have "mmu_write m addr val = Some (m1\<lparr>io := (io m1)[nat (a - 0xFF00) := word_of_int v]\<rparr>)"
      using 10 m1(1) bs
      by (simp add: mmu_write_def a_def [symmetric] v_def [symmetric] del: upt_Suc)
    moreover have "wf_mmu (m1\<lparr>io := (io m1)[nat (a - 0xFF00) := word_of_int v]\<rparr>)"
      using m1(2) by (simp add: wf_mmu_def)
    ultimately show ?thesis using m1(3,4) by simp
  next
    case 11
    then show ?thesis using L v0 v1
      by (simp add: mmu_write_def a_def [symmetric] v_def [symmetric] wf_mmu_def byte_set_in_range)
  next
    case 12
    then show ?thesis using L v0 v1
      by (simp add: mmu_write_def a_def [symmetric] v_def [symmetric] wf_mmu_def)
  qed
qed

lemma mmu_writes_wf:
  "wf_mmu m \<Longrightarrow> \<exists>m'. mmu_writes m ws = Some m' \<and> wf_mmu m' \<and>
                       rom m' = rom m \<and> rom_banks m' = rom_banks m"
proof (induction ws arbitrary: m)
  case Nil
  then show ?case by simp
next
  case (Cons w ws)
  obtain addr val where w: "w = (addr, val)" by (cases w)
  from mmu_write_wf [OF Cons.prems, of addr val] obtain m1 where
    m1: "mmu_write m addr val = Some m1" "wf_mmu m1" "rom m1 = rom m" "rom_banks m1 = rom_banks m"
    by blast
  from Cons.IH [OF m1(2)] obtain m' where
    "mmu_writes m1 ws = Some m'" "wf_mmu m'" "rom m' = rom m1" "rom_banks m' = rom_banks m1"
    by blast
  then show ?case using m1 w by simp
qed

lemma mmu_write_bank_select:
  "0x2000 \<le> addr AND 0xFFFF \<Longrightarrow> addr AND 0xFFFF < 0x4000 \<Longrightarrow>
   mmu_write m addr val =
     Some (m\<lparr>rom_bank := (if (val AND 0xFF) AND 0x1F = 0 then 1 else (val AND 0xFF) AND 0x1F)\<rparr>)"
  by (simp add: mmu_write_def Let_def)

section \<open>Joypad register, HALT and tile addressing: auxiliary facts\<close>

lemma uint_byte_of_int: "0 \<le> x \<Longrightarrow> x < 256 \<Longrightarrow> uint (word_of_int x :: byte) = x"
  by (simp add: uint_word_of_int_eq take_bit_int_eq_self)

lemma nibble_merge:
  "((j::int) AND 0xF0) OR (b AND 0x0F) \<ge> 0"
  "((j::int) AND 0xF0) OR (b AND 0x0F) < 256"
proof -
  show "((j::int) AND 0xF0) OR (b AND 0x0F) \<ge> 0" by simp
  have "j AND 0xF0 \<le> 0xF0" "b AND 0x0F \<le> 0x0F" by (simp_all add: AND_upper2')
  then have u: "j AND 0xF0 < 2 ^ 8" "b AND 0x0F < 2 ^ 8" by simp_all
  have "0 \<le> j AND 0xF0" by simp
  then have "(j AND 0xF0) OR (b AND 0x0F) < 2 ^ 8" using u by (rule OR_upper)
  then show "((j::int) AND 0xF0) OR (b AND 0x0F) < 256" by simp
qed

lemma nibble_parts:
  "(((j::int) AND 0xF0) OR (b AND 0x0F)) AND 0xF0 = j AND 0xF0"
  "(((j::int) AND 0xF0) OR (b AND 0x0F)) AND 0x0F = b AND 0x0F"
  by (simp_all add: bit.conj_disj_distrib2 and.assoc)

lemma mmu_write_joypad:
  "length (io m) = 0x80 \<Longrightarrow>
   mmu_write m 0xFF00 v = Some (m\<lparr>io := (io m)[0 := word_of_int (v AND 0xFF)]\<rparr>)"
  using mask8_bounds [of v] by (simp add: mmu_write_def Let_def byte_set_in_range)

lemma gb_mmu_set [simp]: "gb_mmu (gb_set_mmu m g) = m"
  by (simp add: gb_mmu_def gb_set_mmu_def)

lemma buttons_set_mmu [simp]: "buttons (gb_set_mmu m g) = buttons g"
  by (simp add: gb_set_mmu_def)

lemma set_button_core:
  assumes len: "length (io (gb_mmu gb)) = 0x80"
  shows "\<exists>gb'.
     do { joyp \<leftarrow> byte_at (io (gb_mmu (gb\<lparr>buttons := b\<rparr>))) 0x00;
          gb2 \<leftarrow> (if joyp AND 0x10 = 0
                  then do { v \<leftarrow> byte_set (io (gb_mmu (gb\<lparr>buttons := b\<rparr>))) 0x00
                                    ((joyp AND 0xF0) OR (buttons (gb\<lparr>buttons := b\<rparr>) AND 0x0F));
                            Some (gb_set_mmu ((gb_mmu (gb\<lparr>buttons := b\<rparr>))\<lparr>io := v\<rparr>)
                                    (gb\<lparr>buttons := b\<rparr>)) }
                  else Some (gb\<lparr>buttons := b\<rparr>));
          if joyp AND 0x20 = 0
          then do { v \<leftarrow> byte_set (io (gb_mmu gb2)) 0x00
                            ((joyp AND 0xF0) OR (drop_bit 4 (buttons gb2) AND 0x0F));
                    Some (gb_set_mmu ((gb_mmu gb2)\<lparr>io := v\<rparr>) gb2) }
          else Some gb2 } = Some gb' \<and>
     buttons gb' = b \<and>
     byte_at (io (gb_mmu gb')) 0 =
       Some (let j = uint (io (gb_mmu gb) ! 0) in
             if j AND 0x20 = 0 then (j AND 0xF0) OR (drop_bit 4 (buttons gb') AND 0x0F)
             else if j AND 0x10 = 0 then (j AND 0xF0) OR (buttons gb' AND 0x0F)
             else j)"
proof -
  define gb1 where "gb1 = gb\<lparr>buttons := b\<rparr>"
  define j where "j = uint (io (gb_mmu gb) ! 0)"
  have m1: "gb_mmu gb1 = gb_mmu gb" by (simp add: gb1_def gb_mmu_def)
  have b1: "buttons gb1 = b" by (simp add: gb1_def)
  have jp: "byte_at (io (gb_mmu gb1)) 0 = Some j"
    using len by (simp add: m1 j_def byte_at_in_range)
  have st: "byte_set xs 0 ((j AND 0xF0) OR (x AND 0x0F))
            = Some (xs[0 := word_of_int ((j AND 0xF0) OR (x AND 0x0F))])"
    if "length xs = 0x80" for xs x
    using that nibble_merge [of j x] by (simp add: byte_set_in_range)
  have rd: "byte_at (xs[0 := word_of_int ((j AND 0xF0) OR (x AND 0x0F))]) 0
            = Some ((j AND 0xF0) OR (x AND 0x0F))"
    if "length xs = 0x80" for xs x
    using that nibble_merge [of j x] by (simp add: byte_at_in_range uint_byte_of_int)
  have rd0: "byte_at (io (gb_mmu gb)) 0 = Some j"
    using len by (simp add: j_def byte_at_in_range)
  show ?thesis
    unfolding gb1_def [symmetric] j_def [symmetric] Let_def
    using len by (simp add: jp m1 b1 st rd rd0)
qed

lemma set_button_result:
  assumes len: "length (io (gb_mmu gb)) = 0x80"
  shows "\<exists>gb'. set_button gb btn pressed = Some gb' \<and>
     buttons gb' = (if pressed then buttons gb AND NOT (push_bit btn 1)
                    else buttons gb OR push_bit btn 1) \<and>
     byte_at (io (gb_mmu gb')) 0 =
       Some (let j = uint (io (gb_mmu gb) ! 0) in
             if j AND 0x20 = 0 then (j AND 0xF0) OR (drop_bit 4 (buttons gb') AND 0x0F)
             else if j AND 0x10 = 0 then (j AND 0xF0) OR (buttons gb' AND 0x0F)
             else j)"
proof (cases pressed)
  case True
  show ?thesis
    using set_button_core [OF len, of "buttons gb AND NOT (push_bit btn 1)"]
    unfolding set_button_def Let_def if_P [OF True] .
next
  case False
  show ?thesis
    using set_button_core [OF len, of "buttons gb OR push_bit btn 1"]
    unfolding set_button_def Let_def if_not_P [OF False] .
qed

lemma steps_halted: "halted c \<Longrightarrow> steps n c = Some c"
  by (induction n) (simp_all add: step_def)

lemma exec_halt: "exec c 0x76 = Some (4, c\<lparr>halted := True\<rparr>)"
  by (simp add: exec_def)

lemma tile_pattern_offset_signed:
  "lcdc AND 0x10 = 0 \<Longrightarrow>
   0x8000 + tile_pattern_offset lcdc k = 0x9800 + 16 * (if k > 127 then k - 256 else k)"
  by (simp add: tile_pattern_offset_def Let_def)

lemma tile_pattern_offset_unsigned:
  "lcdc AND 0x10 \<noteq> 0 \<Longrightarrow> 0x8000 + tile_pattern_offset lcdc k = 0x8000 + k * 16"
  by (simp add: tile_pattern_offset_def Let_def)

section \<open>CPU: every instruction keeps the invariant\<close>

lemma low_nibble_flag:
  "(((f::int) AND 0x7F) OR (if v then 0x80 else 0)) AND 0x0F = f AND 0x0F"
  "(((f::int) AND 0xBF) OR (if v then 0x40 else 0)) AND 0x0F = f AND 0x0F"
  "(((f::int) AND 0xDF) OR (if v then 0x20 else 0)) AND 0x0F = f AND 0x0F"
  "(((f::int) AND 0xEF) OR (if v then 0x10 else 0)) AND 0x0F = f AND 0x0F"
  "((x::int) AND 0xF0) AND 0x0F = 0"
  by (simp_all add: bit.conj_disj_distrib2 and.assoc)

lemma cpu_ok_flags [simp]:
  "cpu_ok (set_zf v c) = cpu_ok c" "cpu_ok (set_nf v c) = cpu_ok c"
  "cpu_ok (set_hf v c) = cpu_ok c" "cpu_ok (set_cf v c) = cpu_ok c"
  by (simp_all add: cpu_ok_def set_zf_def set_nf_def set_hf_def set_cf_def low_nibble_flag
               del: and.assoc)

lemma cpu_ok_znhc [simp]: "cpu_ok (set_znhc z n h cy c) = cpu_ok c"
  by (simp add: set_znhc_def)

lemma cpu_ok_updates [simp]:
  "cpu_ok (reg_a_update ga c) = cpu_ok c" "cpu_ok (reg_b_update gb c) = cpu_ok c"
  "cpu_ok (reg_c_update gc c) = cpu_ok c" "cpu_ok (reg_d_update gd c) = cpu_ok c"
  "cpu_ok (reg_e_update ge c) = cpu_ok c" "cpu_ok (reg_h_update gh c) = cpu_ok c"
  "cpu_ok (reg_l_update gl c) = cpu_ok c" "cpu_ok (reg_sp_update gs c) = cpu_ok c"
  "cpu_ok (reg_pc_update gp c) = cpu_ok c" "cpu_ok (ime_update gi c) = cpu_ok c"
  "cpu_ok (halted_update gt c) = cpu_ok c" "cpu_ok (cycles_update gy c) = cpu_ok c"
  by (simp_all add: cpu_ok_def)

lemma cpu_ok_pairs [simp]:
  "cpu_ok (set_bc v c) = cpu_ok c" "cpu_ok (set_de v c) = cpu_ok c" "cpu_ok (set_hl v c) = cpu_ok c"
  by (simp_all add: set_bc_def set_de_def set_hl_def)

lemma cpu_ok_set_af [simp]: "cpu_ok c \<Longrightarrow> cpu_ok (set_af v c)"
  by (simp add: cpu_ok_def set_af_def low_nibble_flag del: and.assoc)

lemma cpu_ok_reset: "wf_mmu (cpu_mmu c) \<Longrightarrow> cpu_ok (cpu_reset c)"
  by (simp add: cpu_ok_def cpu_reset_def)

lemma cpu_ok_inc [simp]: "cpu_ok (snd (inc c v)) = cpu_ok c"
  by (simp add: inc_def Let_def)

lemma cpu_ok_dec [simp]: "cpu_ok (snd (dec c v)) = cpu_ok c"
  by (simp add: dec_def Let_def)

lemma cpu_ok_add_hl [simp]: "cpu_ok (add_hl c v) = cpu_ok c"
  by (simp add: add_hl_def Let_def)

lemma cpu_ok_alu [simp]: "cpu_ok (alu c op v) = cpu_ok c"
  by (simp add: alu_def Let_def)

lemma cpu_read_ok: "cpu_ok c \<Longrightarrow> \<exists>v. cpu_read c addr = Some v"
  using read_Some [of "cpu_mmu c" addr] by (auto simp: cpu_read_def cpu_ok_def)

lemma cpu_write_ok: "cpu_ok c \<Longrightarrow> good_st (cpu_write c addr v)"
  using mmu_write_wf [of "cpu_mmu c" addr v]
  by (auto simp: cpu_write_def cpu_ok_def good_st_def)

lemma good_stD: "good_st r \<Longrightarrow> \<exists>c. r = Some c \<and> cpu_ok c"
  by (cases r) (simp_all add: good_st_def)

lemma goodD: "good r \<Longrightarrow> \<exists>x c. r = Some (x, c) \<and> cpu_ok c"
  by (cases r) (auto simp: good_def)

lemma good_Some [simp]: "good (Some (x, c)) = cpu_ok c"
  by (simp add: good_def)

lemma good_st_Some [simp]: "good_st (Some c) = cpu_ok c"
  by (simp add: good_st_def)

lemma good_if: "good x \<Longrightarrow> good y \<Longrightarrow> good (if b then x else y)"
  by simp

lemma good_st_if: "good_st x \<Longrightarrow> good_st y \<Longrightarrow> good_st (if b then x else y)"
  by simp

lemma good_bind_val:
  "\<exists>v::int. m = Some v \<Longrightarrow> (\<And>v. good (k v)) \<Longrightarrow> good (m \<bind> k)"
  by auto

lemma good_bind_st:
  "good_st m \<Longrightarrow> (\<And>c. cpu_ok c \<Longrightarrow> good (k c)) \<Longrightarrow> good (m \<bind> k)"
  by (auto dest: good_stD)

lemma good_bind:
  "good m \<Longrightarrow> (\<And>x c. cpu_ok c \<Longrightarrow> good (k (x, c))) \<Longrightarrow> good (m \<bind> k)"
  by (auto dest!: goodD)

lemma good_st_bind_val:
  "\<exists>v::int. m = Some v \<Longrightarrow> (\<And>v. good_st (k v)) \<Longrightarrow> good_st (m \<bind> k)"
  by auto

lemma good_st_bind_st:
  "good_st m \<Longrightarrow> (\<And>c. cpu_ok c \<Longrightarrow> good_st (k c)) \<Longrightarrow> good_st (m \<bind> k)"
  by (auto dest: good_stD)

lemma fetch_ok: "cpu_ok c \<Longrightarrow> good (fetch c)"
  unfolding fetch_def by (rule good_bind_val) (simp_all add: cpu_read_ok)

lemma fetch16_ok: "cpu_ok c \<Longrightarrow> good (fetch16 c)"
  unfolding fetch16_def
  by (intro good_bind fetch_ok) (simp_all add: fetch_ok good_bind)

lemma push_ok: "cpu_ok c \<Longrightarrow> good_st (push c v)"
  unfolding push_def Let_def
  by (intro good_st_bind_st cpu_write_ok) simp_all

lemma pop_ok: "cpu_ok c \<Longrightarrow> good (pop c)"
  unfolding pop_def Let_def
  by (intro good_bind_val cpu_read_ok) simp_all

lemma get_r_ok: "cpu_ok c \<Longrightarrow> 0 \<le> r \<Longrightarrow> r < 8 \<Longrightarrow> \<exists>v. get_r c r = Some v"
  using cpu_read_ok [of c "hl c"] by (auto simp: get_r_def py_get_in_range)

lemma set_r_ok: "cpu_ok c \<Longrightarrow> good_st (set_r c r v)"
  unfolding set_r_def Let_def
  by (intro good_st_if cpu_write_ok) simp_all

lemma and7_bounds: "0 \<le> (x::int) AND 7" "(x::int) AND 7 < 8"
proof -
  show "0 \<le> x AND 7" by simp
  have "x AND 7 \<le> 7" by (simp add: AND_upper2')
  then show "x AND 7 < 8" by simp
qed

lemma set_r_then_ok: "cpu_ok c \<Longrightarrow> good (set_r c r v \<bind> (\<lambda>c1. Some (n, c1)))"
  by (rule good_bind_st [OF set_r_ok]) simp_all

lemma exec_cb_ok: "cpu_ok c \<Longrightarrow> good (exec_cb c op)"
  unfolding exec_cb_def Let_def
  apply (rule good_bind_val)
   apply (rule get_r_ok; simp add: and7_bounds)
  apply (intro good_if set_r_then_ok)
           apply simp_all
  done

lemma exec_ok: "cpu_ok c \<Longrightarrow> good (exec c op)"
  unfolding exec_def
  apply (intro good_if)
  apply (auto simp: case_prod_beta Let_def and7_bounds
      intro!: good_bind good_bind_st good_bind_val fetch_ok fetch16_ok pop_ok push_ok
      cpu_read_ok cpu_write_ok exec_cb_ok get_r_ok set_r_ok)
  done

lemma step_ok: "cpu_ok c \<Longrightarrow> good (step c)"
  unfolding step_def
  by (auto intro!: good_bind fetch_ok exec_ok)

lemma steps_ok: "cpu_ok c \<Longrightarrow> good_st (steps n c)"
proof (induction n arbitrary: c)
  case 0
  then show ?case by simp
next
  case (Suc n)
  from goodD [OF step_ok [OF Suc.prems]] obtain x c1 where
    "step c = Some (x, c1)" "cpu_ok c1" by blast
  then show ?case using Suc.IH [of c1] by simp
qed

section \<open>CHIP-8 display: auxiliary facts\<close>

lemma cell_range: "0 \<le> cell x0 y0 row b" "cell x0 y0 row b < 2048"
proof -
  have "0 \<le> (x0 + int b) mod 64" "(x0 + int b) mod 64 < 64"
       "0 \<le> (y0 + int row) mod 32" "(y0 + int row) mod 32 < 32" by simp_all
  then show "0 \<le> cell x0 y0 row b" "cell x0 y0 row b < 2048"
    unfolding cell_def c8_W_def c8_H_def by linarith+
qed

lemma cell_div: "cell x0 y0 row b div 64 = (y0 + int row) mod 32"
  unfolding cell_def c8_W_def c8_H_def by simp

lemma cell_mod: "cell x0 y0 row b mod 64 = (x0 + int b) mod 64"
  unfolding cell_def c8_W_def c8_H_def by simp

lemma shift_mod_inj:
  assumes "(x + int a) mod m = (x + int b) mod m" "int a < m" "int b < m"
  shows "a = b"
proof -
  from assms(1) have "m dvd (x + int a) - (x + int b)" by (simp add: mod_eq_dvd_iff)
  then have "m dvd int a - int b" by simp
  then obtain k where k: "int a - int b = m * k" ..
  have m: "0 < m" using assms(2) by linarith
  have "k = 0"
  proof (rule ccontr)
    assume "k \<noteq> 0"
    then consider "k \<ge> 1" | "k \<le> -1" by linarith
    then show False
    proof cases
      case 1
      then have "m * 1 \<le> m * k" using m by (intro mult_left_mono) simp_all
      with k assms(2) show False by simp
    next
      case 2
      then have "m * k \<le> m * (-1)" using m by (intro mult_left_mono) simp_all
      with k assms(3) show False by simp
    qed
  qed
  with k show ?thesis by simp
qed

lemma cell_inj:
  assumes "cell x0 y0 row b = cell x0 y0 row' b'" "row < 32" "row' < 32" "b < 8" "b' < 8"
  shows "row = row' \<and> b = b'"
proof -
  from assms(1) have "cell x0 y0 row b div 64 = cell x0 y0 row' b' div 64"
    "cell x0 y0 row b mod 64 = cell x0 y0 row' b' mod 64" by simp_all
  then have r: "(y0 + int row) mod 32 = (y0 + int row') mod 32"
    and c: "(x0 + int b) mod 64 = (x0 + int b') mod 64"
    by (simp_all add: cell_div cell_mod)
  from r assms(2,3) have "row = row'" by (intro shift_mod_inj [OF r]) simp_all
  moreover from c assms(4,5) have "b = b'" by (intro shift_mod_inj [OF c]) simp_all
  ultimately show ?thesis by simp
qed

lemma wf_toggle [simp]: "wf_chip8 (toggle idx s) = wf_chip8 s"
  by (simp add: wf_chip8_def toggle_def)

lemma toggle_fields [simp]:
  "memory (toggle idx s) = memory s" "c8_I (toggle idx s) = c8_I s"
  by (simp_all add: toggle_def)

lemma sprite_byte_toggle [simp]: "sprite_byte (toggle idx s) row = sprite_byte s row"
  by (simp add: sprite_byte_def)

lemma draw_bit_pure:
  assumes "wf_chip8 s" "0 \<le> y" "y < 32"
  shows "draw_bit sprite x0 y b s =
           Some (if lit sprite b then toggle ((x0 + int b) mod c8_W + y * c8_W) s else s)"
proof (cases "lit sprite b")
  case False
  then show ?thesis by (simp add: draw_bit_def lit_def)
next
  case True
  define idx where "idx = (x0 + int b) mod c8_W + y * c8_W"
  have "0 \<le> (x0 + int b) mod 64" "(x0 + int b) mod 64 < 64" by simp_all
  with assms(2,3) have i: "0 \<le> idx" "idx < 2048"
    unfolding idx_def c8_W_def by linarith+
  from assms(1) have len: "length (gfx s) = 2048" "length (c8_V s) = 16"
    by (simp_all add: wf_chip8_def)
  have g: "py_get xs idx = Some (xs ! nat idx)" if "length xs = 2048" for xs :: "int list"
    using that i by (simp add: py_get_in_range)
  have st: "py_set xs idx v = Some (xs[nat idx := v])" if "length xs = 2048" for xs :: "int list" and v
    using that i by (simp add: py_set_def py_index_def)
  have v: "py_set (c8_V s) 0xF 1 = Some ((c8_V s)[0xF := 1])"
    using len by (simp add: py_set_def py_index_def)
  show ?thesis
    using True len
    by (simp add: draw_bit_def lit_def Let_def idx_def [symmetric] g st v toggle_def)
qed

lemma for_each_pure:
  assumes "\<And>x s. x \<in> set xs \<Longrightarrow> P s \<Longrightarrow> body x s = Some (g x s) \<and> P (g x s)" "P s"
  shows "for_each body xs s = Some (fold g xs s) \<and> P (fold g xs s)"
  using assms by (induction xs arbitrary: s) simp_all

lemma fold_if_filter:
  "fold (\<lambda>b s. if p b then f (h b) s else s) bs s = fold f (map h (filter p bs)) s"
  by (induction bs arbitrary: s) simp_all

lemma fold_toggle_wf: "wf_chip8 (fold toggle is s) = wf_chip8 s"
  by (induction "is" arbitrary: s) simp_all

lemma fold_toggle_fields:
  "memory (fold toggle is s) = memory s" "c8_I (fold toggle is s) = c8_I s"
  by (induction "is" arbitrary: s) simp_all

lemma draw_row_pure:
  assumes "wf_chip8 s"
  shows "draw_row x0 y0 row s = Some (fold toggle (row_cells s x0 y0 row) s)"
proof -
  define y where "y = (y0 + int row) mod c8_H"
  define sp where "sp = sprite_byte s row"
  have y: "0 \<le> y" "y < 32" by (simp_all add: y_def c8_H_def)
  have rd: "byte_at (memory s) ((c8_I s + int row) AND 0x0FFF) = Some sp"
  proof -
    have "0 \<le> (c8_I s + int row) AND 0x0FFF" by simp
    moreover have "(c8_I s + int row) AND 0x0FFF \<le> 0x0FFF" by (simp add: AND_upper2')
    ultimately show ?thesis using assms
      by (simp add: byte_at_in_range wf_chip8_def sp_def sprite_byte_def)
  qed
  have "for_each (draw_bit sp x0 y) [0..<8] s
        = Some (fold (\<lambda>b s. if lit sp b then toggle ((x0 + int b) mod c8_W + y * c8_W) s else s) [0..<8] s)
        \<and> wf_chip8 (fold (\<lambda>b s. if lit sp b then toggle ((x0 + int b) mod c8_W + y * c8_W) s else s) [0..<8] s)"
    by (rule for_each_pure [where P = wf_chip8]) (simp_all add: draw_bit_pure y assms)
  then have "for_each (draw_bit sp x0 y) [0..<8] s
        = Some (fold toggle (map (\<lambda>b. (x0 + int b) mod c8_W + y * c8_W) (filter (lit sp) [0..<8])) s)"
    by (simp only: fold_if_filter [where f = toggle and p = "lit sp"
          and h = "\<lambda>b. (x0 + int b) mod c8_W + y * c8_W"])
  moreover have "map (\<lambda>b. (x0 + int b) mod c8_W + y * c8_W) (filter (lit sp) [0..<8])
                 = row_cells s x0 y0 row"
    by (simp add: row_cells_def cell_def y_def sp_def)
  ultimately show ?thesis
    using rd by (simp add: draw_row_def Let_def y_def [symmetric])
qed

lemma row_cells_toggle [simp]: "row_cells (toggle idx s) x0 y0 row = row_cells s x0 y0 row"
  by (simp add: row_cells_def)

lemma row_cells_fold_toggle [simp]:
  "row_cells (fold toggle ixs s) x0 y0 row = row_cells s x0 y0 row"
  by (induction ixs arbitrary: s) simp_all

lemma fold_rows:
  "fold (\<lambda>row. fold toggle (rc row)) rows s = fold toggle (concat (map rc rows)) s"
  by (induction rows arbitrary: s) simp_all

lemma draw_pure:
  assumes "wf_chip8 s"
  shows "draw s vx vy n =
           Some (fold toggle (sprite_cells s (vx mod c8_W) (vy mod c8_H) n)
                             (s\<lparr>c8_V := (c8_V s)[0xF := 0]\<rparr>))"
proof -
  define x0 where "x0 = vx mod c8_W"
  define y0 where "y0 = vy mod c8_H"
  define s0 where "s0 = s\<lparr>c8_V := (c8_V s)[0xF := 0]\<rparr>"
  define P where "P = (\<lambda>t. wf_chip8 t \<and> (\<forall>row. row_cells t x0 y0 row = row_cells s x0 y0 row))"
  have v: "py_set (c8_V s) 0xF 0 = Some ((c8_V s)[0xF := 0])"
    using assms by (simp add: py_set_def py_index_def wf_chip8_def)
  have P0: "P s0"
    using assms by (simp add: P_def s0_def wf_chip8_def row_cells_def sprite_byte_def)
  have "for_each (draw_row x0 y0) [0..<n] s0
          = Some (fold (\<lambda>row. fold toggle (row_cells s x0 y0 row)) [0..<n] s0)
        \<and> P (fold (\<lambda>row. fold toggle (row_cells s x0 y0 row)) [0..<n] s0)"
  proof (rule for_each_pure [where P = P])
    fix row t assume "P t"
    then show "draw_row x0 y0 row t = Some (fold toggle (row_cells s x0 y0 row) t)
               \<and> P (fold toggle (row_cells s x0 y0 row) t)"
      using draw_row_pure [of t x0 y0 row] by (simp add: P_def fold_toggle_wf)
  qed (rule P0)
  then have "for_each (draw_row x0 y0) [0..<n] s0
          = Some (fold toggle (sprite_cells s x0 y0 n) s0)"
    by (simp add: fold_rows sprite_cells_def)
  then show ?thesis
    using v by (simp add: draw_def Let_def x0_def [symmetric] y0_def [symmetric] s0_def)
qed

lemma fold_toggle_gfx:
  assumes "distinct ixs" "\<forall>i \<in> set ixs. 0 \<le> i \<and> i < int (length (gfx s))"
  shows "length (gfx (fold toggle ixs s)) = length (gfx s) \<and>
         (\<forall>k < length (gfx s).
            gfx (fold toggle ixs s) ! k = gfx s ! k XOR (if int k \<in> set ixs then 1 else 0)) \<and>
         c8_V (fold toggle ixs s) =
           (if \<exists>i \<in> set ixs. gfx s ! nat i = 1 then (c8_V s)[0xF := 1] else c8_V s)"
  using assms
proof (induction ixs arbitrary: s)
  case Nil
  then show ?case by simp
next
  case (Cons i ixs)
  define t where "t = toggle i s"
  have i: "0 \<le> i" "nat i < length (gfx s)" using Cons.prems(2) by auto
  have lt: "length (gfx t) = length (gfx s)" by (simp add: t_def toggle_def)
  have gt: "gfx t ! k = (if k = nat i then gfx s ! k XOR 1 else gfx s ! k)"
    if "k < length (gfx s)" for k
    using that by (simp add: t_def toggle_def nth_list_update)
  have vt: "c8_V t = (if gfx s ! nat i = 1 then (c8_V s)[0xF := 1] else c8_V s)"
    by (simp add: t_def toggle_def)
  have d: "distinct ixs" "i \<notin> set ixs" using Cons.prems(1) by simp_all
  have r: "\<forall>j \<in> set ixs. 0 \<le> j \<and> j < int (length (gfx t))"
    using Cons.prems(2) lt by simp
  note IH = Cons.IH [OF d(1) r]
  have same: "gfx t ! nat j = gfx s ! nat j" if "j \<in> set ixs" for j
  proof -
    from that Cons.prems(2) have j: "0 \<le> j" "nat j < length (gfx s)" by auto
    from that d(2) have "j \<noteq> i" by auto
    with j i have "nat j \<noteq> nat i" by simp
    with gt [OF j(2)] show ?thesis by simp
  qed
  have ex: "(\<exists>j \<in> set ixs. gfx t ! nat j = 1) \<longleftrightarrow> (\<exists>j \<in> set ixs. gfx s ! nat j = 1)"
    using same by auto
  have len: "length (gfx (fold toggle (i # ixs) s)) = length (gfx s)"
    using IH lt by (simp add: t_def)
  have nth: "gfx (fold toggle (i # ixs) s) ! k
             = gfx s ! k XOR (if int k \<in> set (i # ixs) then 1 else 0)"
    if k: "k < length (gfx s)" for k
  proof -
    have "gfx (fold toggle (i # ixs) s) ! k = gfx t ! k XOR (if int k \<in> set ixs then 1 else 0)"
      using IH k lt by (simp add: t_def)
    also have "\<dots> = gfx s ! k XOR (if int k \<in> set (i # ixs) then 1 else 0)"
    proof (cases "k = nat i")
      case True
      then have "int k = i" using i by simp
      then have "int k \<notin> set ixs" using d(2) by simp
      then show ?thesis using gt [OF k] True \<open>int k = i\<close> by simp
    next
      case False
      then have "int k \<noteq> i" using i by auto
      then show ?thesis using gt [OF k] False by simp
    qed
    finally show ?thesis .
  qed
  have vv: "c8_V (fold toggle (i # ixs) s) =
           (if \<exists>j \<in> set (i # ixs). gfx s ! nat j = 1 then (c8_V s)[0xF := 1] else c8_V s)"
  proof -
    have "c8_V (fold toggle (i # ixs) s)
          = (if \<exists>j \<in> set ixs. gfx t ! nat j = 1 then (c8_V t)[0xF := 1] else c8_V t)"
      using IH by (simp add: t_def)
    then show ?thesis by (simp add: ex vt)
  qed
  from len nth vv show ?case by blast
qed

lemma set_row_cells:
  "set (row_cells s x0 y0 row) = {cell x0 y0 row b | b. b < 8 \<and> lit (sprite_byte s row) b}"
  by (auto simp: row_cells_def)

lemma set_sprite_cells:
  "set (sprite_cells s x0 y0 n)
     = {cell x0 y0 row b | row b. row < n \<and> b < 8 \<and> lit (sprite_byte s row) b}"
  unfolding sprite_cells_def by (auto simp: set_row_cells) blast

lemma distinct_row_cells:
  assumes "row < 32"
  shows "distinct (row_cells s x0 y0 row)"
proof -
  have "inj_on (cell x0 y0 row) (set [0..<8])"
  proof (rule inj_onI)
    fix b b' assume "b \<in> set [0..<8]" "b' \<in> set [0..<8]" "cell x0 y0 row b = cell x0 y0 row b'"
    then show "b = b'" using cell_inj [of x0 y0 row b row b'] assms by simp
  qed
  then have "distinct (map (cell x0 y0 row) [0..<8])" by (simp add: distinct_map)
  then show ?thesis unfolding row_cells_def by (rule distinct_map_filter)
qed

lemma distinct_sprite_cells: "n \<le> 32 \<Longrightarrow> distinct (sprite_cells s x0 y0 n)"
proof (induction n)
  case 0
  then show ?case by (simp add: sprite_cells_def)
next
  case (Suc n)
  have app: "sprite_cells s x0 y0 (Suc n) = sprite_cells s x0 y0 n @ row_cells s x0 y0 n"
    by (simp add: sprite_cells_def)
  have False if "c \<in> set (sprite_cells s x0 y0 n)" "c \<in> set (row_cells s x0 y0 n)" for c
  proof -
    from that(1) obtain row b where rb: "row < n" "b < 8" "c = cell x0 y0 row b"
      by (auto simp: set_sprite_cells)
    from that(2) obtain b' where b': "b' < 8" "c = cell x0 y0 n b'"
      by (auto simp: set_row_cells)
    from rb b' have "cell x0 y0 row b = cell x0 y0 n b'" by simp
    with rb b' Suc.prems cell_inj [of x0 y0 row b n b'] show False by simp
  qed
  then have "set (sprite_cells s x0 y0 n) \<inter> set (row_cells s x0 y0 n) = {}" by blast
  with Suc distinct_row_cells [of n s x0 y0] show ?case by (simp add: app)
qed

lemma sprite_covers_iff:
  "sprite_covers s vx vy n k \<longleftrightarrow> int k \<in> set (sprite_cells s (vx mod c8_W) (vy mod c8_H) n)"
  by (auto simp: sprite_covers_def set_sprite_cells)

lemma draw_result:
  assumes wf: "wf_chip8 s" and n: "n \<le> 15"
  shows "\<exists>s'. draw s vx vy n = Some s' \<and> wf_chip8 s' \<and>
           memory s' = memory s \<and> c8_I s' = c8_I s \<and>
           (\<forall>k<2048. gfx s' ! k = gfx s ! k XOR (if sprite_covers s vx vy n k then 1 else 0)) \<and>
           c8_V s' = (c8_V s)[0xF := (if \<exists>k<2048. sprite_covers s vx vy n k \<and> gfx s ! k = 1
                                       then 1 else 0)]"
proof -
  define cs where "cs = sprite_cells s (vx mod c8_W) (vy mod c8_H) n"
  define s0 where "s0 = s\<lparr>c8_V := (c8_V s)[0xF := 0]\<rparr>"
  define s' where "s' = fold toggle cs s0"
  have len: "length (gfx s) = 2048" using wf by (simp add: wf_chip8_def)
  have g0: "gfx s0 = gfx s" and v0: "c8_V s0 = (c8_V s)[0xF := 0]" by (simp_all add: s0_def)
  have wf0: "wf_chip8 s0" using wf by (simp add: s0_def wf_chip8_def)
  have d: "draw s vx vy n = Some s'"
    using draw_pure [OF wf, of vx vy n] by (simp add: s'_def cs_def s0_def)
  have dist: "distinct cs" unfolding cs_def by (rule distinct_sprite_cells) (use n in simp)
  have rng: "\<forall>i \<in> set cs. 0 \<le> i \<and> i < int (length (gfx s0))"
    unfolding cs_def g0 len by (auto simp: set_sprite_cells cell_range)
  note F = fold_toggle_gfx [OF dist rng, folded s'_def, unfolded g0 v0 len]
  have cov: "sprite_covers s vx vy n k \<longleftrightarrow> int k \<in> set cs" for k
    by (simp add: sprite_covers_iff cs_def)
  have ex: "(\<exists>i \<in> set cs. gfx s ! nat i = 1) \<longleftrightarrow> (\<exists>k<2048. sprite_covers s vx vy n k \<and> gfx s ! k = 1)"
  proof
    assume "\<exists>i \<in> set cs. gfx s ! nat i = 1"
    then obtain i where i: "i \<in> set cs" "gfx s ! nat i = 1" by blast
    with rng have "0 \<le> i" "i < 2048" by (auto simp: g0 len)
    then have "nat i < 2048" "int (nat i) = i" by simp_all
    with i show "\<exists>k<2048. sprite_covers s vx vy n k \<and> gfx s ! k = 1"
      by (auto simp: cov intro!: exI [of _ "nat i"])
  next
    assume "\<exists>k<2048. sprite_covers s vx vy n k \<and> gfx s ! k = 1"
    then obtain k where "int k \<in> set cs" "gfx s ! k = 1" by (auto simp: cov)
    then show "\<exists>i \<in> set cs. gfx s ! nat i = 1" by (auto intro!: bexI [of _ "int k"])
  qed
  have "wf_chip8 s'" "memory s' = memory s" "c8_I s' = c8_I s"
    using wf0 by (simp_all add: s'_def fold_toggle_wf fold_toggle_fields s0_def)
  moreover have "\<forall>k<2048. gfx s' ! k = gfx s ! k XOR (if sprite_covers s vx vy n k then 1 else 0)"
    using F by (simp add: cov)
  moreover have "c8_V s' = (c8_V s)[0xF := (if \<exists>k<2048. sprite_covers s vx vy n k \<and> gfx s ! k = 1
                                       then 1 else 0)]"
    using F by (auto simp: ex)
  ultimately show ?thesis using d by blast
qed

lemma sprite_covers_cong:
  "memory t = memory s \<Longrightarrow> c8_I t = c8_I s \<Longrightarrow> sprite_covers t vx vy n k = sprite_covers s vx vy n k"
  by (simp add: sprite_covers_def sprite_byte_def)

lemma xor_twice: "((g::int) XOR c) XOR c = g"
  by (simp add: xor.assoc)

lemma draw_twice:
  assumes wf: "wf_chip8 s" and n: "n \<le> 15"
  shows "\<exists>s1 s2. draw s vx vy n = Some s1 \<and> draw s1 vx vy n = Some s2 \<and> gfx s2 = gfx s"
proof -
  from draw_result [OF wf n, of vx vy] obtain s1 where s1:
    "draw s vx vy n = Some s1" "wf_chip8 s1" "memory s1 = memory s" "c8_I s1 = c8_I s"
    "\<forall>k<2048. gfx s1 ! k = gfx s ! k XOR (if sprite_covers s vx vy n k then 1 else 0)" by blast
  from draw_result [OF s1(2) n, of vx vy] obtain s2 where s2:
    "draw s1 vx vy n = Some s2" "wf_chip8 s2"
    "\<forall>k<2048. gfx s2 ! k = gfx s1 ! k XOR (if sprite_covers s1 vx vy n k then 1 else 0)" by blast
  have len: "length (gfx s2) = 2048" "length (gfx s) = 2048"
    using s2(2) wf by (simp_all add: wf_chip8_def)
  have "gfx s2 = gfx s"
  proof (rule nth_equalityI)
    show "length (gfx s2) = length (gfx s)" using len by simp
  next
    fix k assume "k < length (gfx s2)"
    then have k: "k < 2048" using len by simp
    show "gfx s2 ! k = gfx s ! k"
      using s1(5) s2(3) k sprite_covers_cong [OF s1(3,4)] by (simp add: xor_twice)
  qed
  with s1(1) s2(1) show ?thesis by blast
qed

lemma cls_twice: "cls (cls s) = cls s"
  by (simp add: cls_def Let_def list_ex_iff)

lemma length_fold_update:
  "length (fold (\<lambda>(i, b) m. m[f i := b]) xs m) = length m"
  by (induction xs arbitrary: m) (simp_all add: case_prod_beta)

lemma length_memory_init: "length (memory chip8_init) = 4096"
  by (simp add: chip8_init_def length_fold_update)

lemma wf_chip8_edge:
  "wf_chip8 (chip8_init\<lparr>memory := (memory chip8_init)[0x300 := 0xFF, 0x301 := 0xFF, 0x302 := 0xFF],
                        c8_I := 0x300\<rparr>)"
  by (simp add: wf_chip8_def length_memory_init) (simp add: chip8_init_def c8_W_def c8_H_def)

lemma sprite_byte_edge:
  "row < 3 \<Longrightarrow>
   sprite_byte (chip8_init\<lparr>memory := (memory chip8_init)[0x300 := 0xFF, 0x301 := 0xFF, 0x302 := 0xFF],
                           c8_I := 0x300\<rparr>) row = 0xFF"
proof -
  assume "row < 3"
  then consider "row = 0" | "row = 1" | "row = 2" by linarith
  then show ?thesis
    by cases (simp_all add: sprite_byte_def length_memory_init)
qed

lemma gfx_edge:
  "k < 2048 \<Longrightarrow>
   gfx (chip8_init\<lparr>memory := (memory chip8_init)[0x300 := 0xFF, 0x301 := 0xFF, 0x302 := 0xFF],
                   c8_I := 0x300\<rparr>) ! k = 0"
  by (simp add: chip8_init_def c8_W_def c8_H_def)

lemma covers_edge:
  "sprite_covers (chip8_init\<lparr>memory := (memory chip8_init)[0x300 := 0xFF, 0x301 := 0xFF, 0x302 := 0xFF],
                            c8_I := 0x300\<rparr>) 62 30 3 1982"
  "sprite_covers (chip8_init\<lparr>memory := (memory chip8_init)[0x300 := 0xFF, 0x301 := 0xFF, 0x302 := 0xFF],
                            c8_I := 0x300\<rparr>) 62 30 3 1920"
  "sprite_covers (chip8_init\<lparr>memory := (memory chip8_init)[0x300 := 0xFF, 0x301 := 0xFF, 0x302 := 0xFF],
                            c8_I := 0x300\<rparr>) 62 30 3 62"
proof -
  let ?s = "chip8_init\<lparr>memory := (memory chip8_init)[0x300 := 0xFF, 0x301 := 0xFF, 0x302 := 0xFF],
                            c8_I := 0x300\<rparr>"
  have l: "lit (sprite_byte ?s row) b" if "row < 3" "b = 0 \<or> b = 2" for row b
    using that by (auto simp: sprite_byte_edge lit_def)
  have "(0::nat) < 3 \<and> (0::nat) < 8 \<and> lit (sprite_byte ?s 0) 0 \<and> int 1982 = cell (62 mod c8_W) (30 mod c8_H) 0 0"
    by (simp add: l cell_def c8_W_def c8_H_def)
  then show "sprite_covers ?s 62 30 3 1982" unfolding sprite_covers_def by blast
  have "(0::nat) < 3 \<and> (2::nat) < 8 \<and> lit (sprite_byte ?s 0) 2 \<and> int 1920 = cell (62 mod c8_W) (30 mod c8_H) 0 2"
    by (simp add: l cell_def c8_W_def c8_H_def)
  then show "sprite_covers ?s 62 30 3 1920" unfolding sprite_covers_def by blast
  have "(2::nat) < 3 \<and> (0::nat) < 8 \<and> lit (sprite_byte ?s 2) 0 \<and> int 62 = cell (62 mod c8_W) (30 mod c8_H) 2 0"
    by (simp add: l cell_def c8_W_def c8_H_def)
  then show "sprite_covers ?s 62 30 3 62" unfolding sprite_covers_def by blast
qed

section \<open>CHIP-8, second variant: the DXYN branch draws what \<open>_draw\<close> draws\<close>

lemma for_each_sim:
  assumes "\<And>x s t. x \<in> set xs \<Longrightarrow> R s t \<Longrightarrow> rel_option R (f x s) (g x t)" "R s t"
  shows "rel_option R (for_each f xs s) (for_each g xs t)"
  using assms
proof (induction xs arbitrary: s t)
  case Nil
  then show ?case by simp
next
  case (Cons x xs)
  have "rel_option R (f x s) (g x t)" using Cons.prems by simp
  then show ?case
  proof (cases rule: option.rel_cases)
    case None
    then show ?thesis by simp
  next
    case (Some s1 t1)
    then show ?thesis using Cons.IH [of s1 t1] Cons.prems(1) by simp
  qed
qed

lemma lit_low_byte:
  assumes "b < 8"
  shows "lit (uint (word_of_int x :: byte)) b = lit x b"
proof -
  have u: "uint (word_of_int x :: byte) = x AND 0xFF"
    by (simp add: uint_word_of_int_eq take_bit_eq_mask mask_eq_exp_minus_1)
  from assms consider "b = 0" | "b = 1" | "b = 2" | "b = 3" | "b = 4" | "b = 5" | "b = 6" | "b = 7"
    by linarith
  then show ?thesis
    by cases (simp_all add: lit_def u and.assoc)
qed

lemma sim_bit:
  assumes "same_display s t" "lit spa b = lit spb b"
  shows "rel_option same_display
           (draw_bit spa (vx mod c8_W) ((vy mod c8_H + int row) mod c8_H) b s)
           (drw2_bit spb vx vy row b t)"
proof -
  have idx: "(vx mod c8_W + int b) mod c8_W + ((vy mod c8_H + int row) mod c8_H) * c8_W
             = (vy + int row) mod SCR_H * SCR_W + (vx + int b) mod SCR_W"
    by (simp add: c8_W_def c8_H_def SCR_W_def SCR_H_def mod_add_left_eq)
  from assms(1) have e: "gfx s = gfx2 t" "c8_V s = V2 t" by (simp_all add: same_display_def)
  show ?thesis
    using assms unfolding draw_bit_def drw2_bit_def Let_def idx lit_def e
    by (auto simp: same_display_def split: bind_splits)
qed

lemma mask12_id: "0 \<le> (x::int) \<Longrightarrow> x < 4096 \<Longrightarrow> x AND 0x0FFF = x"
proof -
  assume a: "0 \<le> x" "x < 4096"
  have "x AND 0x0FFF = take_bit 12 x" by (simp add: take_bit_eq_mask mask_eq_exp_minus_1)
  also have "\<dots> = x" using a by (simp add: take_bit_int_eq_self)
  finally show ?thesis .
qed

lemma rel_option_strengthen:
  "rel_option R a b \<Longrightarrow> a = Some s' \<Longrightarrow> P s' \<Longrightarrow> rel_option (\<lambda>x y. R x y \<and> P x) a b"
  by (cases b) auto

lemma sim_row:
  assumes sd: "same_display s t" and wf: "wf_chip8 s"
    and i: "0 \<le> c8_I s + int row" "c8_I s + int row < 4096"
  shows "rel_option (\<lambda>s' t'. same_display s' t' \<and> wf_chip8 s' \<and> c8_I s' = c8_I s)
           (draw_row (vx mod c8_W) (vy mod c8_H) row s) (drw2_row vx vy row t)"
proof -
  define k where "k = nat (c8_I s + int row)"
  from sd have m: "memory s = map word_of_int (mem t)" and ii: "I2 t = c8_I s"
    by (simp_all add: same_display_def)
  from wf m have len: "length (mem t) = 4096" "length (memory s) = 4096"
    by (simp_all add: wf_chip8_def)
  have k: "k < 4096" using i by (simp add: k_def)
  have r1: "byte_at (memory s) ((c8_I s + int row) AND 0x0FFF)
            = Some (uint (word_of_int (mem t ! k) :: byte))"
    using i len k by (simp add: mask12_id byte_at_in_range k_def [symmetric] m)
  have r2: "py_get (mem t) (I2 t + int row) = Some (mem t ! k)"
    using i len by (simp add: ii py_get_in_range k_def)
  have "rel_option same_display
          (for_each (draw_bit (uint (word_of_int (mem t ! k) :: byte)) (vx mod c8_W)
                       ((vy mod c8_H + int row) mod c8_H)) [0..<8] s)
          (for_each (drw2_bit (mem t ! k) vx vy row) [0..<8] t)"
    by (rule for_each_sim [where R = same_display]) (simp_all add: sim_bit lit_low_byte sd)
  then have "rel_option same_display (draw_row (vx mod c8_W) (vy mod c8_H) row s)
               (drw2_row vx vy row t)"
    by (simp add: draw_row_def drw2_row_def r1 r2 Let_def)
  moreover have "draw_row (vx mod c8_W) (vy mod c8_H) row s
                 = Some (fold toggle (row_cells s (vx mod c8_W) (vy mod c8_H) row) s)"
    by (rule draw_row_pure [OF wf])
  moreover have "wf_chip8 (fold toggle (row_cells s (vx mod c8_W) (vy mod c8_H) row) s)
                 \<and> c8_I (fold toggle (row_cells s (vx mod c8_W) (vy mod c8_H) row) s) = c8_I s"
    using wf by (simp add: fold_toggle_wf fold_toggle_fields)
  ultimately show ?thesis by (rule rel_option_strengthen)
qed

lemma sim_draw:
  assumes sd: "same_display s t" and wf: "wf_chip8 s"
    and i: "0 \<le> c8_I s" "c8_I s + int n \<le> 4096"
    and v: "py_get (V2 t) x = Some vx" "py_get (V2 t) y = Some vy"
  shows "rel_option same_display (draw s vx vy n) (drw2 t x y n)"
proof -
  define R where "R = (\<lambda>s' t'. same_display s' t' \<and> wf_chip8 s' \<and> c8_I s' = c8_I s)"
  from sd have e: "c8_V s = V2 t" by (simp add: same_display_def)
  from wf have lv: "length (V2 t) = 16" by (simp add: wf_chip8_def e [symmetric])
  have st: "py_set (V2 t) 0xF 0 = Some ((V2 t)[0xF := 0])"
    using lv by (simp add: py_set_def py_index_def)
  define s0 where "s0 = s\<lparr>c8_V := (V2 t)[0xF := 0]\<rparr>"
  define t0 where "t0 = t\<lparr>V2 := (V2 t)[0xF := 0]\<rparr>"
  have R0: "R s0 t0"
    using sd wf by (simp add: R_def s0_def t0_def same_display_def wf_chip8_def)
  have "rel_option R (for_each (draw_row (vx mod c8_W) (vy mod c8_H)) [0..<n] s0)
                     (for_each (drw2_row vx vy) [0..<n] t0)"
  proof (rule for_each_sim [where R = R])
    fix row s' t' assume row: "row \<in> set [0..<n]" and R': "R s' t'"
    then have b: "0 \<le> c8_I s' + int row" "c8_I s' + int row < 4096"
      using i by (simp_all add: R_def)
    from sim_row [OF _ _ b, of t' vx vy] R'
    show "rel_option R (draw_row (vx mod c8_W) (vy mod c8_H) row s') (drw2_row vx vy row t')"
      by (simp add: R_def)
  qed (rule R0)
  then have "rel_option same_display
               (for_each (draw_row (vx mod c8_W) (vy mod c8_H)) [0..<n] s0)
               (for_each (drw2_row vx vy) [0..<n] t0 \<bind> (\<lambda>t1. Some (t1\<lparr>draw_flag := True\<rparr>)))"
    by (cases rule: option.rel_cases) (simp_all add: R_def same_display_def)
  then show ?thesis
    by (simp add: draw_def drw2_def Let_def v st e s0_def t0_def)
qed

lemma wf_as_chip81:
  "length (mem t) = 4096 \<Longrightarrow> length (V2 t) = 16 \<Longrightarrow> length (gfx2 t) = 2048 \<Longrightarrow>
   wf_chip8 (as_chip81 t)"
  by (simp add: wf_chip8_def as_chip81_def)

lemma same_display_as: "same_display (as_chip81 t) t"
  by (simp add: same_display_def as_chip81_def)

lemma drw2_result:
  assumes len: "length (mem t) = 4096" "length (V2 t) = 16" "length (gfx2 t) = 2048"
    and i: "0 \<le> I2 t" "I2 t + int n \<le> 4096" and n: "n \<le> 15"
    and xy: "0 \<le> x" "x < 16" "0 \<le> y" "y < 16"
  shows "\<exists>t'. drw2 t x y n = Some t' \<and> length (gfx2 t') = 2048 \<and>
     (\<forall>k<2048. gfx2 t' ! k = gfx2 t ! k XOR
         (if sprite_covers (as_chip81 t) (V2 t ! nat x) (V2 t ! nat y) n k then 1 else 0)) \<and>
     V2 t' = (V2 t)[0xF :=
         (if \<exists>k<2048. sprite_covers (as_chip81 t) (V2 t ! nat x) (V2 t ! nat y) n k \<and> gfx2 t ! k = 1
          then 1 else 0)]"
proof -
  let ?s = "as_chip81 t"
  have wf: "wf_chip8 ?s" by (rule wf_as_chip81 [OF len])
  have v: "py_get (V2 t) x = Some (V2 t ! nat x)" "py_get (V2 t) y = Some (V2 t ! nat y)"
    using xy len by (simp_all add: py_get_in_range)
  have i': "0 \<le> c8_I ?s" "c8_I ?s + int n \<le> 4096" using i by (simp_all add: as_chip81_def)
  from draw_result [OF wf n, of "V2 t ! nat x" "V2 t ! nat y"] obtain s' where s':
    "draw ?s (V2 t ! nat x) (V2 t ! nat y) n = Some s'" "wf_chip8 s'"
    "\<forall>k<2048. gfx s' ! k = gfx ?s ! k XOR
        (if sprite_covers ?s (V2 t ! nat x) (V2 t ! nat y) n k then 1 else 0)"
    "c8_V s' = (c8_V ?s)[0xF :=
        (if \<exists>k<2048. sprite_covers ?s (V2 t ! nat x) (V2 t ! nat y) n k \<and> gfx ?s ! k = 1
         then 1 else 0)]" by blast
  from sim_draw [OF same_display_as wf i' v] s'(1)
  obtain t' where t': "drw2 t x y n = Some t'" "same_display s' t'"
    by (cases "drw2 t x y n") auto
  have g: "gfx ?s = gfx2 t" "c8_V ?s = V2 t" by (simp_all add: as_chip81_def)
  from t'(2) have e: "gfx2 t' = gfx s'" "V2 t' = c8_V s'" by (simp_all add: same_display_def)
  from s'(2) have l: "length (gfx2 t') = 2048" by (simp add: e wf_chip8_def)
  have a: "\<forall>k<2048. gfx2 t' ! k = gfx2 t ! k XOR
        (if sprite_covers ?s (V2 t ! nat x) (V2 t ! nat y) n k then 1 else 0)"
    using s'(3) unfolding e g .
  have b: "V2 t' = (V2 t)[0xF :=
        (if \<exists>k<2048. sprite_covers ?s (V2 t ! nat x) (V2 t ! nat y) n k \<and> gfx2 t ! k = 1
         then 1 else 0)]"
    using s'(4) unfolding e g .
  show ?thesis
    by (rule exI [of _ t']) (intro conjI t'(1) l a b)
qed

lemma cell2_cell: "cell2 vx vy row col = cell (vx mod c8_W) (vy mod c8_H) row col"
  by (simp add: cell2_def cell_def c8_W_def c8_H_def SCR_W_def SCR_H_def mod_add_left_eq)

lemma sprite_covers2_as:
  assumes "length (mem t) = 4096" "0 \<le> I2 t" "I2 t + int n \<le> 4096"
  shows "sprite_covers (as_chip81 t) vx vy n k = sprite_covers2 t vx vy n k"
proof -
  have "lit (sprite_byte (as_chip81 t) row) col = lit (mem t ! nat (I2 t + int row)) col"
    if "row < n" "col < 8" for row col
  proof -
    have r: "0 \<le> I2 t + int row" "I2 t + int row < 4096" using assms that by simp_all
    then have "nat (I2 t + int row) < length (mem t)" using assms(1) by simp
    then show ?thesis
      using r that by (simp add: sprite_byte_def as_chip81_def mask12_id lit_low_byte)
  qed
  then show ?thesis unfolding sprite_covers_def sprite_covers2_def cell2_cell by blast
qed

lemma drw2_covers:
  assumes "wf_chip8b t" "n \<le> 15" "0 \<le> I2 t" "I2 t + int n \<le> 4096"
    "0 \<le> x" "x < 16" "0 \<le> y" "y < 16"
  shows "\<exists>t'. drw2 t x y n = Some t' \<and> length (gfx2 t') = 2048 \<and>
     (\<forall>k<2048. gfx2 t' ! k = gfx2 t ! k XOR
         (if sprite_covers2 t (V2 t ! nat x) (V2 t ! nat y) n k then 1 else 0)) \<and>
     V2 t' = (V2 t)[0xF :=
         (if \<exists>k<2048. sprite_covers2 t (V2 t ! nat x) (V2 t ! nat y) n k \<and> gfx2 t ! k = 1
          then 1 else 0)]"
proof -
  from assms(1) have len: "length (mem t) = 4096" "length (V2 t) = 16" "length (gfx2 t) = 2048"
    by (simp_all add: wf_chip8b_def)
  show ?thesis
    using drw2_result [OF len assms(3,4,2,5-8)]
    unfolding sprite_covers2_as [OF len(1) assms(3,4)] .
qed

lemma wf_chip8b_edge:
  "wf_chip8b (chip8b_init\<lparr>mem := (mem chip8b_init)[0x300 := 0xFF, 0x301 := 0xFF, 0x302 := 0xFF],
                          V2 := (V2 chip8b_init)[0 := 62, 1 := 30], I2 := 0x300\<rparr>)"
  by (simp add: wf_chip8b_def chip8b_init_def length_fold_update SCR_W_def SCR_H_def)

lemma mem_edge:
  "row < 3 \<Longrightarrow>
   mem (chip8b_init\<lparr>mem := (mem chip8b_init)[0x300 := 0xFF, 0x301 := 0xFF, 0x302 := 0xFF],
                     V2 := (V2 chip8b_init)[0 := 62, 1 := 30], I2 := 0x300\<rparr>) ! nat (0x300 + int row) = 0xFF"
proof -
  assume "row < 3"
  then consider "row = 0" | "row = 1" | "row = 2" by linarith
  then show ?thesis
    by cases (simp_all add: chip8b_init_def length_fold_update)
qed

lemma edge2_fields:
  "I2 (chip8b_init\<lparr>mem := (mem chip8b_init)[0x300 := 0xFF, 0x301 := 0xFF, 0x302 := 0xFF],
                   V2 := (V2 chip8b_init)[0 := 62, 1 := 30], I2 := 0x300\<rparr>) = 0x300"
  "V2 (chip8b_init\<lparr>mem := (mem chip8b_init)[0x300 := 0xFF, 0x301 := 0xFF, 0x302 := 0xFF],
                   V2 := (V2 chip8b_init)[0 := 62, 1 := 30], I2 := 0x300\<rparr>) ! nat 0 = 62"
  "V2 (chip8b_init\<lparr>mem := (mem chip8b_init)[0x300 := 0xFF, 0x301 := 0xFF, 0x302 := 0xFF],
                   V2 := (V2 chip8b_init)[0 := 62, 1 := 30], I2 := 0x300\<rparr>) ! nat 1 = 30"
  "k < 2048 \<Longrightarrow>
   gfx2 (chip8b_init\<lparr>mem := (mem chip8b_init)[0x300 := 0xFF, 0x301 := 0xFF, 0x302 := 0xFF],
                     V2 := (V2 chip8b_init)[0 := 62, 1 := 30], I2 := 0x300\<rparr>) ! k = 0"
  by (simp_all add: chip8b_init_def SCR_W_def SCR_H_def)

lemma covers2_edge:
  "sprite_covers2 (chip8b_init\<lparr>mem := (mem chip8b_init)[0x300 := 0xFF, 0x301 := 0xFF, 0x302 := 0xFF],
                              V2 := (V2 chip8b_init)[0 := 62, 1 := 30], I2 := 0x300\<rparr>) 62 30 3 1982"
  "sprite_covers2 (chip8b_init\<lparr>mem := (mem chip8b_init)[0x300 := 0xFF, 0x301 := 0xFF, 0x302 := 0xFF],
                              V2 := (V2 chip8b_init)[0 := 62, 1 := 30], I2 := 0x300\<rparr>) 62 30 3 1920"
  "sprite_covers2 (chip8b_init\<lparr>mem := (mem chip8b_init)[0x300 := 0xFF, 0x301 := 0xFF, 0x302 := 0xFF],
                              V2 := (V2 chip8b_init)[0 := 62, 1 := 30], I2 := 0x300\<rparr>) 62 30 3 62"
proof -
  let ?t = "chip8b_init\<lparr>mem := (mem chip8b_init)[0x300 := 0xFF, 0x301 := 0xFF, 0x302 := 0xFF],
                              V2 := (V2 chip8b_init)[0 := 62, 1 := 30], I2 := 0x300\<rparr>"
  have l: "lit (mem ?t ! nat (I2 ?t + int row)) b" if "row < 3" "b = 0 \<or> b = 2" for row b
    using that mem_edge [of row] by (auto simp: edge2_fields(1) lit_def)
  have "(0::nat) < 3 \<and> (0::nat) < 8 \<and> lit (mem ?t ! nat (I2 ?t + int 0)) 0 \<and>
        int 1982 = cell2 62 30 0 0"
    using l [of 0 0] by (simp add: cell2_def SCR_W_def SCR_H_def)
  then show "sprite_covers2 ?t 62 30 3 1982" unfolding sprite_covers2_def by blast
  have "(0::nat) < 3 \<and> (2::nat) < 8 \<and> lit (mem ?t ! nat (I2 ?t + int 0)) 2 \<and>
        int 1920 = cell2 62 30 0 2"
    using l [of 0 2] by (simp add: cell2_def SCR_W_def SCR_H_def)
  then show "sprite_covers2 ?t 62 30 3 1920" unfolding sprite_covers2_def by blast
  have "(2::nat) < 3 \<and> (0::nat) < 8 \<and> lit (mem ?t ! nat (I2 ?t + int 2)) 0 \<and>
        int 62 = cell2 62 30 2 0"
    using l [of 2 0] by (simp add: cell2_def SCR_W_def SCR_H_def)
  then show "sprite_covers2 ?t 62 30 3 62" unfolding sprite_covers2_def by blast
qed

lemma drw2_edge:
  "\<exists>t'. drw2 (chip8b_init\<lparr>mem := (mem chip8b_init)[0x300 := 0xFF, 0x301 := 0xFF, 0x302 := 0xFF],
                           V2 := (V2 chip8b_init)[0 := 62, 1 := 30], I2 := 0x300\<rparr>) 0 1 3 = Some t' \<and>
        gfx2 t' ! 1982 = 1 \<and> gfx2 t' ! 1920 = 1 \<and> gfx2 t' ! 62 = 1"
proof -
  define t where
    "t = chip8b_init\<lparr>mem := (mem chip8b_init)[0x300 := 0xFF, 0x301 := 0xFF, 0x302 := 0xFF],
                      V2 := (V2 chip8b_init)[0 := 62, 1 := 30], I2 := 0x300\<rparr>"
  have wf: "wf_chip8b t" unfolding t_def by (rule wf_chip8b_edge)
  have f: "I2 t = 0x300" "V2 t ! nat 0 = 62" "V2 t ! nat 1 = 30"
    unfolding t_def by (rule edge2_fields)+
  have g: "gfx2 t ! k = 0" if "k < 2048" for k
    using that unfolding t_def by (rule edge2_fields)
  have c: "sprite_covers2 t 62 30 3 1982" "sprite_covers2 t 62 30 3 1920"
    "sprite_covers2 t 62 30 3 62"
    unfolding t_def by (rule covers2_edge)+
  have h: "(3::nat) \<le> 15" "0 \<le> I2 t" "I2 t + int 3 \<le> 4096"
    "(0::int) \<le> 0" "(0::int) < 16" "(0::int) \<le> 1" "(1::int) < 16"
    by (simp_all add: f)
  from drw2_covers [OF wf h] obtain t' where t':
    "drw2 t 0 1 3 = Some t'"
    "\<forall>k<2048. gfx2 t' ! k = gfx2 t ! k XOR
        (if sprite_covers2 t (V2 t ! nat 0) (V2 t ! nat 1) 3 k then 1 else 0)"
    by blast
  have "gfx2 t' ! 1982 = 1" "gfx2 t' ! 1920 = 1" "gfx2 t' ! 62 = 1"
    using t'(2) c f by (simp_all add: g)
  with t'(1) show ?thesis unfolding t_def by blast
qed

section \<open>Memory map: the claims about reads and writes\<close>

text \<open>
  Claim C9. \<open>MMU.read\<close> is total on every well-formed memory map: for every integer
  address it returns a value in \<open>0..255\<close> and raises nothing. The address is masked to
  16 bits; the unmapped range \<open>0xFEA0-0xFEFF\<close> reads as \<open>0xFF\<close>; disabled external RAM
  reads as \<open>0xFF\<close>; and when \<open>rom_bank\<close> is not smaller than the number of loaded banks,
  a read of the switchable region returns the byte of the fixed 32 KiB ROM at that address.
\<close>

theorem mmu_read_total:
  assumes "wf_mmu m"
  shows "\<exists>v. read m addr = Some v \<and> 0 \<le> v \<and> v \<le> 255 \<and>
     (0xFEA0 \<le> addr AND 0xFFFF \<and> addr AND 0xFFFF < 0xFF00 \<longrightarrow> v = 0xFF) \<and>
     (0xA000 \<le> addr AND 0xFFFF \<and> addr AND 0xFFFF < 0xC000 \<and> \<not> ram_enabled m \<longrightarrow> v = 0xFF) \<and>
     (0x4000 \<le> addr AND 0xFFFF \<and> addr AND 0xFFFF < 0x8000 \<and> int (length (rom_banks m)) \<le> rom_bank m
        \<longrightarrow> v = uint (rom m ! nat (addr AND 0xFFFF)))"
  using assms by (rule read_wf)

theorem mmu_read_total_witness:
  "wf_mmu mmu_reset \<and> read mmu_reset 0x1FEA5 = Some 0xFF \<and> read mmu_reset 0xA123 = Some 0xFF \<and>
   read mmu_reset 0x4000 = Some 0 \<and> read mmu_reset (-1) = Some 0"
proof -
  have a: "read mmu_reset 0x1FEA5 = Some 0xFF"
    using mmu_read_total [where m = mmu_reset and addr = "0x1FEA5", OF wf_mmu_reset] by auto
  have b: "read mmu_reset 0xA123 = Some 0xFF"
    using mmu_read_total [where m = mmu_reset and addr = "0xA123", OF wf_mmu_reset] by (auto simp: mmu_reset_def)
  have c: "read mmu_reset 0x4000 = Some 0"
    using mmu_read_total [where m = mmu_reset and addr = "0x4000", OF wf_mmu_reset] by (auto simp: mmu_reset_def)
  have d: "read mmu_reset (-1) = Some 0"
    by (simp add: read_def mmu_reset_def)
  from a b c d wf_mmu_reset show ?thesis by simp
qed

text \<open>
  Claim C10. A write to an address below \<open>0x8000\<close> (after the 16-bit mask) changes no
  stored memory byte: \<open>rom\<close>, \<open>rom_banks\<close>, \<open>vram\<close>, \<open>eram\<close>, \<open>wram\<close>, \<open>oam\<close>, \<open>io\<close>,
  \<open>hram\<close> and \<open>ie\<close> are unchanged. Only \<open>ram_enabled\<close> may change, and only for an address
  below \<open>0x2000\<close>; only \<open>rom_bank\<close> may change, and only for an address in
  \<open>[0x2000, 0x4000)\<close>; from \<open>0x4000\<close> on the whole state is unchanged.
\<close>

theorem mmu_write_rom_region_frame:
  "addr AND 0xFFFF < 0x8000 \<Longrightarrow>
   \<exists>m'. mmu_write m addr val = Some m' \<and>
     rom m' = rom m \<and> rom_banks m' = rom_banks m \<and> vram m' = vram m \<and> eram m' = eram m \<and>
     wram m' = wram m \<and> oam m' = oam m \<and> io m' = io m \<and> hram m' = hram m \<and> ie m' = ie m \<and>
     (addr AND 0xFFFF < 0x2000 \<longrightarrow> rom_bank m' = rom_bank m) \<and>
     (0x2000 \<le> addr AND 0xFFFF \<longrightarrow> ram_enabled m' = ram_enabled m) \<and>
     (0x4000 \<le> addr AND 0xFFFF \<longrightarrow> m' = m)"
  by (simp add: mmu_write_def Let_def)

theorem mmu_write_rom_region_frame_witness:
  "(0x2100 :: int) AND 0xFFFF < 0x8000 \<and>
   (\<exists>m'. mmu_write mmu_reset 0x2100 5 = Some m' \<and> rom_bank m' = 5 \<and>
     rom m' = rom mmu_reset \<and> vram m' = vram mmu_reset \<and> io m' = io mmu_reset \<and>
     ram_enabled m' = ram_enabled mmu_reset)"
proof -
  have h: "(0x2100 :: int) AND 0xFFFF < 0x8000" by simp
  from mmu_write_rom_region_frame [where addr = "0x2100" and m = mmu_reset and val = 5, OF h]
  obtain m' where m': "mmu_write mmu_reset 0x2100 5 = Some m'" "rom m' = rom mmu_reset"
    "vram m' = vram mmu_reset" "io m' = io mmu_reset" "ram_enabled m' = ram_enabled mmu_reset"
    by auto
  have "mmu_write mmu_reset 0x2100 5 = Some (mmu_reset\<lparr>rom_bank := 5\<rparr>)"
    by (simp add: mmu_write_def Let_def)
  with m' have "rom_bank m' = 5" by auto
  with h m' show ?thesis by blast
qed

section \<open>Memory map: bank selector and ROM loading\<close>

text \<open>
  Claim C4, as the code has it. After loading any ROM and performing any sequence of
  \<open>MMU.write\<close> calls, no write raises and \<open>1 \<le> rom_bank \<le> 31\<close>: the selector is the
  low five bits of the written value, with zero remapped to one. It is not bounded by the
  number of loaded banks; \<open>read\<close> guards against a selector beyond them. Writing \<open>0x00\<close>
  to an address in \<open>[0x2000, 0x4000)\<close> forces \<open>rom_bank = 1\<close>.
\<close>

theorem rom_bank_range:
  "\<exists>m'. mmu_writes (snd (load_rom data)) ws = Some m' \<and>
        1 \<le> rom_bank m' \<and> rom_bank m' \<le> 31 \<and>
        (\<forall>addr. 0x2000 \<le> addr AND 0xFFFF \<and> addr AND 0xFFFF < 0x4000 \<longrightarrow>
           map_option rom_bank (mmu_write m' addr 0x00) = Some 1)"
proof -
  from mmu_writes_wf [OF wf_load_rom, of data ws] obtain m' where
    m': "mmu_writes (snd (load_rom data)) ws = Some m'" "wf_mmu m'" by blast
  have "map_option rom_bank (mmu_write m' addr 0x00) = Some 1"
    if "0x2000 \<le> addr AND 0xFFFF" "addr AND 0xFFFF < 0x4000" for addr
    using that by (simp add: mmu_write_bank_select)
  with m' show ?thesis by (auto simp: wf_mmu_def)
qed

theorem rom_bank_range_witness:
  "(0x2000::int) \<le> 0x3FFF AND 0xFFFF \<and> (0x3FFF::int) AND 0xFFFF < 0x4000 \<and>
   (\<exists>m'. mmu_writes (snd (load_rom (replicate 0xC000 0))) [(0x2000, 0x1F)] = Some m' \<and>
         rom_bank m' = 31 \<and> map_option rom_bank (mmu_write m' 0x3FFF 0x00) = Some 1)"
proof -
  from rom_bank_range [of "replicate 0xC000 0" "[(0x2000, 0x1F)]"] obtain m' where
    m': "mmu_writes (snd (load_rom (replicate 0xC000 0))) [(0x2000, 0x1F)] = Some m'"
    "\<forall>addr. 0x2000 \<le> addr AND 0xFFFF \<and> addr AND 0xFFFF < 0x4000 \<longrightarrow>
           map_option rom_bank (mmu_write m' addr 0x00) = Some 1" by blast
  have h: "(0x2000::int) \<le> 0x3FFF AND 0xFFFF \<and> (0x3FFF::int) AND 0xFFFF < 0x4000" by simp
  with m'(2) have one: "map_option rom_bank (mmu_write m' 0x3FFF 0x00) = Some 1" by blast
  have "mmu_writes (snd (load_rom (replicate 0xC000 0))) [(0x2000, 0x1F)]
        = Some ((snd (load_rom (replicate 0xC000 0)))\<lparr>rom_bank := 31\<rparr>)"
    by (simp add: mmu_write_bank_select)
  with m'(1) have "rom_bank m' = 31" by auto
  with h one m'(1) show ?thesis by blast
qed

text \<open>
  The bound \<open>rom_bank \<le> len(rom_banks)\<close> of claim C4 fails: a 48 KiB ROM has three
  banks, and writing \<open>0x1F\<close> to \<open>0x2000\<close> selects bank 31.
\<close>

theorem rom_bank_exceeds_bank_count:
  "0x8000 < length (replicate 0xC000 (0::byte)) \<and>
   length (rom_banks (snd (load_rom (replicate 0xC000 0)))) = 3 \<and>
   map_option (length \<circ> rom_banks) (mmu_writes (snd (load_rom (replicate 0xC000 0))) [(0x2000, 0x1F)]) = Some 3 \<and>
   map_option rom_bank (mmu_writes (snd (load_rom (replicate 0xC000 0))) [(0x2000, 0x1F)]) = Some 31"
  by (simp add: mmu_write_bank_select rom_banks_load_rom)

text \<open>
  Claim C5, as the code has it. Loading never rejects an input for its size or its header:
  \<open>MMU.load_rom\<close> returns \<open>True\<close> for every byte string, and \<open>GameBoy.load_rom\<close> returns
  \<open>False\<close> only when the file cannot be read. The first 32 KiB of the data are mapped
  directly (a shorter input leaves the rest zero); when the data is longer than 32 KiB,
  every complete 16 KiB chunk \<open>b = 0, 1, ...\<close> of it becomes \<open>rom_banks[b]\<close>.
\<close>

theorem load_rom_always_succeeds:
  "fst (load_rom data) = True \<and>
   rom (snd (load_rom data)) = take 0x8000 data @ replicate (0x8000 - length data) 0 \<and>
   rom_banks (snd (load_rom data)) =
     (if length data > 0x8000
      then map (\<lambda>b. py_slice data (b * 0x4000) ((b + 1) * 0x4000)) [0..<length data div 0x4000]
      else []) \<and>
   fst (gb_load_rom gb (Some data)) = True \<and>
   gb_mmu (snd (gb_load_rom gb (Some data))) = snd (load_rom data) \<and>
   fst (gb_load_rom gb None) = False"
proof -
  have "gb_load_rom gb (Some data) = (True, gb_set_mmu (snd (load_rom data)) (gb_reset gb))"
    by (simp add: gb_load_rom_def Let_def case_prod_beta load_rom_ok)
  moreover have "gb_mmu (gb_set_mmu m g) = m" for m g
    by (simp add: gb_mmu_def gb_set_mmu_def)
  ultimately show ?thesis
    using rom_load_rom [of data] rom_banks_load_rom [of data] load_rom_ok [of data]
    by (simp add: gb_load_rom_def Let_def case_prod_beta)
qed

text \<open>
  Claim C5 fails as stated: the empty input and an input of \<open>0x150\<close> bytes are both
  shorter than 32 KiB and both load successfully.
\<close>

theorem load_rom_accepts_empty:
  "fst (load_rom []) = True \<and> fst (gb_load_rom gb_init (Some [])) = True \<and>
   fst (load_rom (replicate 0x150 0)) = True"
  by (simp add: load_rom_ok gb_load_rom_def Let_def case_prod_beta)

section \<open>Joypad register\<close>

text \<open>
  Claim C6, as the code has it. A CPU write to \<open>0xFF00\<close> stores bits 7..4 of the written
  value as the high nibble of the register: bits 7 and 6 are accepted as well as the
  selector bits 5 and 4. The low nibble is recomputed from the host input latch whenever a
  button changes state (\<open>set_button\<close>): with the register value \<open>j\<close> before the call, it
  becomes the action half of the latch when selector bit 5 of \<open>j\<close> is low, else the
  direction half when selector bit 4 is low, else the register is unchanged; the high
  nibble is kept.
\<close>

theorem joypad_register:
  assumes "length (io (gb_mmu gb)) = 0x80"
  shows "(\<exists>m'. mmu_write (gb_mmu gb) 0xFF00 v = Some m' \<and>
               map_option (\<lambda>x. x AND 0xF0) (byte_at (io m') 0) = Some (v AND 0xF0)) \<and>
         (\<exists>gb'. set_button gb btn pressed = Some gb' \<and>
            buttons gb' = (if pressed then buttons gb AND NOT (push_bit btn 1)
                           else buttons gb OR push_bit btn 1) \<and>
            byte_at (io (gb_mmu gb')) 0 =
              Some (let j = uint (io (gb_mmu gb) ! 0) in
                    if j AND 0x20 = 0 then (j AND 0xF0) OR (drop_bit 4 (buttons gb') AND 0x0F)
                    else if j AND 0x10 = 0 then (j AND 0xF0) OR (buttons gb' AND 0x0F)
                    else j))"
proof -
  have "uint (word_of_int (v AND 0xFF) :: byte) = v AND 0xFF"
    using mask8_bounds [of v] by (simp add: uint_byte_of_int)
  moreover have "(v AND 0xFF) AND 0xF0 = v AND 0xF0" by (simp add: and.assoc)
  ultimately have "map_option (\<lambda>x. x AND 0xF0)
      (byte_at ((io (gb_mmu gb))[0 := word_of_int (v AND 0xFF)]) 0) = Some (v AND 0xF0)"
    using assms by (simp add: byte_at_in_range)
  then show ?thesis
    using mmu_write_joypad [OF assms, of v] set_button_result [OF assms, of btn pressed]
    by simp
qed

theorem joypad_register_witness:
  "length (io (gb_mmu gb_init)) = 0x80 \<and>
   (\<exists>m'. mmu_write (gb_mmu gb_init) 0xFF00 0xCF = Some m' \<and>
         map_option (\<lambda>x. x AND 0xF0) (byte_at (io m') 0) = Some 0xC0) \<and>
   (\<exists>gb'. set_button gb_init 0 True = Some gb' \<and> buttons gb' = 0xFE \<and>
          byte_at (io (gb_mmu gb')) 0 = Some 0x0F)"
proof -
  have len: "length (io (gb_mmu gb_init)) = 0x80"
    by (simp add: gb_init_def gb_mmu_def cpu_init_def mmu_reset_def)
  have j: "uint (io (gb_mmu gb_init) ! 0) = 0"
    by (simp add: gb_init_def gb_mmu_def cpu_init_def mmu_reset_def)
  have b: "buttons gb_init = 0xFF" by (simp add: gb_init_def)
  from joypad_register [OF len, of "0xCF" 0 True] len show ?thesis
    by (auto simp: j b Let_def)
qed

text \<open>
  Claim C6 fails as stated: writing \<open>0xCF\<close> to \<open>0xFF00\<close> stores \<open>0xCF\<close>, so bits 7 and 6
  and the low nibble of the register all come from the written value.
\<close>

theorem joypad_write_stores_written_bits:
  "mmu_write mmu_reset 0xFF00 0xCF = Some (mmu_reset\<lparr>io := (io mmu_reset)[0 := 0xCF]\<rparr>)"
  by (simp add: mmu_write_def Let_def byte_set_def py_index_def mmu_reset_def)

section \<open>HALT\<close>

text \<open>
  Claim C3, as the code has it. Opcode \<open>0x76\<close> sets the halted flag and costs 4 cycles.
  Once the flag is set, every \<open>step\<close> returns 4 cycles, executes no opcode and leaves the
  whole CPU and memory state unchanged, for any number of steps: \<open>step\<close> never looks at
  \<open>IF\<close> or \<open>IE\<close>, so a pending interrupt request does not clear the flag. \<open>reset\<close>
  clears it.
\<close>

theorem halt_never_leaves:
  "exec c 0x76 = Some (4, c\<lparr>halted := True\<rparr>) \<and>
   (\<not> halted c \<and> fetch c = Some (0x76, c1) \<longrightarrow> step c = Some (4, c1\<lparr>halted := True\<rparr>)) \<and>
   (halted c \<longrightarrow> step c = Some (4, c) \<and> steps n c = Some c) \<and>
   \<not> halted (cpu_reset c)"
  by (simp add: exec_halt steps_halted step_def cpu_reset_def)

theorem halt_never_leaves_witness:
  "halted (cpu_init\<lparr>halted := True\<rparr>) \<and>
   step (cpu_init\<lparr>halted := True\<rparr>) = Some (4, cpu_init\<lparr>halted := True\<rparr>) \<and>
   steps 3 (cpu_init\<lparr>halted := True\<rparr>) = Some (cpu_init\<lparr>halted := True\<rparr>) \<and>
   \<not> halted (cpu_reset (cpu_init\<lparr>halted := True\<rparr>)) \<and>
   \<not> halted (cpu_init\<lparr>cpu_mmu := mmu_reset\<lparr>rom := (rom mmu_reset)[0x100 := 0x76]\<rparr>\<rparr>) \<and>
   fetch (cpu_init\<lparr>cpu_mmu := mmu_reset\<lparr>rom := (rom mmu_reset)[0x100 := 0x76]\<rparr>\<rparr>)
     = Some (0x76, cpu_init\<lparr>cpu_mmu := mmu_reset\<lparr>rom := (rom mmu_reset)[0x100 := 0x76]\<rparr>, reg_pc := 0x101\<rparr>) \<and>
   step (cpu_init\<lparr>cpu_mmu := mmu_reset\<lparr>rom := (rom mmu_reset)[0x100 := 0x76]\<rparr>\<rparr>)
     = Some (4, cpu_init\<lparr>cpu_mmu := mmu_reset\<lparr>rom := (rom mmu_reset)[0x100 := 0x76]\<rparr>,
                         reg_pc := 0x101, halted := True\<rparr>)"
proof -
  have h: "halted (cpu_init\<lparr>halted := True\<rparr>)" by simp
  have nh: "\<not> halted (cpu_init\<lparr>cpu_mmu := mmu_reset\<lparr>rom := (rom mmu_reset)[0x100 := 0x76]\<rparr>\<rparr>)"
    by (simp add: cpu_init_def)
  have f: "fetch (cpu_init\<lparr>cpu_mmu := mmu_reset\<lparr>rom := (rom mmu_reset)[0x100 := 0x76]\<rparr>\<rparr>)
     = Some (0x76, cpu_init\<lparr>cpu_mmu := mmu_reset\<lparr>rom := (rom mmu_reset)[0x100 := 0x76]\<rparr>, reg_pc := 0x101\<rparr>)"
    by (simp add: fetch_def cpu_read_def read_def cpu_init_def mmu_reset_def byte_at_in_range)
  from halt_never_leaves [of "cpu_init\<lparr>halted := True\<rparr>" _ 3] h
  have a: "step (cpu_init\<lparr>halted := True\<rparr>) = Some (4, cpu_init\<lparr>halted := True\<rparr>)"
    "steps 3 (cpu_init\<lparr>halted := True\<rparr>) = Some (cpu_init\<lparr>halted := True\<rparr>)"
    "\<not> halted (cpu_reset (cpu_init\<lparr>halted := True\<rparr>))" by blast+
  from halt_never_leaves [of "cpu_init\<lparr>cpu_mmu := mmu_reset\<lparr>rom := (rom mmu_reset)[0x100 := 0x76]\<rparr>\<rparr>"
      "cpu_init\<lparr>cpu_mmu := mmu_reset\<lparr>rom := (rom mmu_reset)[0x100 := 0x76]\<rparr>, reg_pc := 0x101\<rparr>" 0] nh f
  have b: "step (cpu_init\<lparr>cpu_mmu := mmu_reset\<lparr>rom := (rom mmu_reset)[0x100 := 0x76]\<rparr>\<rparr>)
     = Some (4, cpu_init\<lparr>cpu_mmu := mmu_reset\<lparr>rom := (rom mmu_reset)[0x100 := 0x76]\<rparr>,
                         reg_pc := 0x101, halted := True\<rparr>)" by blast
  from h nh f a b show ?thesis by blast
qed

text \<open>
  Claim C3 fails as stated: a halted CPU with \<open>IF = 1\<close> and \<open>IE = 1\<close>, so that
  \<open>IF & IE \<noteq> 0\<close>, is still halted after \<open>step\<close>.
\<close>

theorem halted_with_pending_interrupt_stays_halted:
  "read (mmu_reset\<lparr>io := (io mmu_reset)[0x0F := 0x01], ie := 0x01\<rparr>) 0xFF0F = Some 0x01 \<and>
   read (mmu_reset\<lparr>io := (io mmu_reset)[0x0F := 0x01], ie := 0x01\<rparr>) 0xFFFF = Some 0x01 \<and>
   (0x01 :: int) AND 0x01 \<noteq> 0 \<and>
   step (cpu_init\<lparr>halted := True, cpu_mmu := mmu_reset\<lparr>io := (io mmu_reset)[0x0F := 0x01], ie := 0x01\<rparr>\<rparr>)
     = Some (4, cpu_init\<lparr>halted := True, cpu_mmu := mmu_reset\<lparr>io := (io mmu_reset)[0x0F := 0x01], ie := 0x01\<rparr>\<rparr>) \<and>
   halted (cpu_init\<lparr>halted := True, cpu_mmu := mmu_reset\<lparr>io := (io mmu_reset)[0x0F := 0x01], ie := 0x01\<rparr>\<rparr>)"
  by (simp add: step_def read_def mmu_reset_def byte_at_in_range)

section \<open>Background tile addressing\<close>

text \<open>
  Claim C2 at its failing input. With \<open>LCDC = 0x81\<close> (bit 4 clear, signed indices) the
  map entry \<open>0x00\<close>, signed index 0, makes the renderer read the tile pattern at address
  \<open>0x9800\<close>, not \<open>0x9000\<close>; entry \<open>0x80\<close>, index -128, reads at \<open>0x9000\<close> and entry \<open>0x7F\<close>,
  index 127, at \<open>0x9FF0\<close>. With \<open>LCDC = 0x91\<close> (bit 4 set) entry 0 reads at \<open>0x8000\<close>.
\<close>

theorem tile_pattern_offset_signed_zero:
  "tile_pattern_offset 0x81 0x00 = 0x1800 \<and> 0x8000 + tile_pattern_offset 0x81 0x00 = 0x9800 \<and>
   0x8000 + tile_pattern_offset 0x81 0x80 = 0x9000 \<and> 0x8000 + tile_pattern_offset 0x81 0x7F = 0x9FF0 \<and>
   0x8000 + tile_pattern_offset 0x91 0x00 = 0x8000"
  by (simp add: tile_pattern_offset_def Let_def)

section \<open>Flag register\<close>

text \<open>
  Claim C7. The low nibble of \<open>F\<close> is zero after \<open>reset\<close>, and on a well-formed memory
  map every opcode (\<open>_exec\<close> for any \<open>op\<close>, so also \<open>POP AF\<close> and every flag-modifying
  operation), every \<open>step\<close> and every sequence of steps returns, in a state where
  \<open>F & 0x0F = 0\<close> again.
\<close>

theorem flags_low_nibble_zero:
  "reg_f (cpu_reset c) AND 0x0F = 0 \<and>
   (wf_mmu (cpu_mmu c) \<and> reg_f c AND 0x0F = 0 \<longrightarrow>
      (\<exists>n c'. exec c op = Some (n, c') \<and> reg_f c' AND 0x0F = 0 \<and> wf_mmu (cpu_mmu c')) \<and>
      (\<exists>n c'. step c = Some (n, c') \<and> reg_f c' AND 0x0F = 0 \<and> wf_mmu (cpu_mmu c')) \<and>
      (\<exists>c'. steps k c = Some c' \<and> reg_f c' AND 0x0F = 0 \<and> wf_mmu (cpu_mmu c')))"
proof -
  have r: "reg_f (cpu_reset c) AND 0x0F = 0" by (simp add: cpu_reset_def)
  have "(\<exists>n c'. exec c op = Some (n, c') \<and> cpu_ok c') \<and>
        (\<exists>n c'. step c = Some (n, c') \<and> cpu_ok c') \<and>
        (\<exists>c'. steps k c = Some c' \<and> cpu_ok c')" if "cpu_ok c"
    using goodD [OF exec_ok [OF that, of op]] goodD [OF step_ok [OF that]]
      good_stD [OF steps_ok [OF that, of k]] by blast
  then show ?thesis using r unfolding cpu_ok_def by blast
qed

theorem flags_low_nibble_zero_witness:
  "wf_mmu (cpu_mmu (cpu_init\<lparr>reg_sp := 0xC000,
        cpu_mmu := mmu_reset\<lparr>wram := (wram mmu_reset)[0 := 0xFF, 1 := 0x12]\<rparr>\<rparr>)) \<and>
   reg_f (cpu_init\<lparr>reg_sp := 0xC000,
        cpu_mmu := mmu_reset\<lparr>wram := (wram mmu_reset)[0 := 0xFF, 1 := 0x12]\<rparr>\<rparr>) AND 0x0F = 0 \<and>
   (\<exists>n c'. exec (cpu_init\<lparr>reg_sp := 0xC000,
        cpu_mmu := mmu_reset\<lparr>wram := (wram mmu_reset)[0 := 0xFF, 1 := 0x12]\<rparr>\<rparr>) 0xF1 = Some (n, c') \<and>
      reg_f c' = 0xF0 \<and> reg_a c' = 0x12 \<and> reg_f c' AND 0x0F = 0)"
proof -
  define c0 where "c0 = cpu_init\<lparr>reg_sp := 0xC000,
        cpu_mmu := mmu_reset\<lparr>wram := (wram mmu_reset)[0 := 0xFF, 1 := 0x12]\<rparr>\<rparr>"
  have w: "wf_mmu (cpu_mmu c0)" by (simp add: c0_def wf_mmu_def mmu_reset_def)
  have f: "reg_f c0 AND 0x0F = 0" by (simp add: c0_def cpu_init_def)
  from flags_low_nibble_zero [of c0 "0xF1" 0] w f obtain n c' where
    e: "exec c0 0xF1 = Some (n, c')" "reg_f c' AND 0x0F = 0" by blast
  have "map_option (\<lambda>r. (reg_f (snd r), reg_a (snd r))) (exec c0 0xF1) = Some (0xF0, 0x12)"
    by (simp add: c0_def exec_def pop_def cpu_read_def read_def byte_at_in_range set_af_def
        cpu_init_def mmu_reset_def)
  with e have "reg_f c' = 0xF0" "reg_a c' = 0x12" by simp_all
  with w f e show ?thesis unfolding c0_def by blast
qed

section \<open>CHIP-8 sprite drawing\<close>

text \<open>
  Claim C1, as the code has it, for both CHIP-8 files. For every DRW (DXYN) instruction on
  a machine with the buffers of the constructor and \<open>n \<le> 15\<close> rows, the draw returns
  (in the second file, whose sprite read is not masked, when the \<open>n\<close> sprite bytes lie
  inside the memory). The starting coordinates are reduced modulo the display width and
  height, and the iteration wraps as well: the set sprite bit \<open>(row, b)\<close> is XORed onto
  column \<open>(x0 + b) mod 64\<close> of row \<open>(y0 + row) mod 32\<close>, so what falls past the right or
  bottom edge reappears at the left or top. No cell is written twice: distinct sprite bits
  land on distinct cells, and every covered cell is toggled exactly once, every other cell
  kept. \<open>V[0xF]\<close> is 1 if a set pixel becomes unset and 0 otherwise.
\<close>

theorem draw_wraps:
  "(wf_chip8 s \<and> n \<le> 15 \<longrightarrow>
      (\<exists>s'. draw s vx vy n = Some s' \<and> length (gfx s') = 2048 \<and>
         (\<forall>k<2048. gfx s' ! k = gfx s ! k XOR (if sprite_covers s vx vy n k then 1 else 0)) \<and>
         c8_V s' = (c8_V s)[0xF := (if \<exists>k<2048. sprite_covers s vx vy n k \<and> gfx s ! k = 1
                                     then 1 else 0)])) \<and>
   (wf_chip8b t \<and> n \<le> 15 \<and> 0 \<le> I2 t \<and> I2 t + int n \<le> 4096 \<and>
    0 \<le> x \<and> x < 16 \<and> 0 \<le> y \<and> y < 16 \<longrightarrow>
      (\<exists>t'. drw2 t x y n = Some t' \<and> length (gfx2 t') = 2048 \<and>
         (\<forall>k<2048. gfx2 t' ! k = gfx2 t ! k XOR
             (if sprite_covers2 t (V2 t ! nat x) (V2 t ! nat y) n k then 1 else 0)) \<and>
         V2 t' = (V2 t)[0xF :=
             (if \<exists>k<2048. sprite_covers2 t (V2 t ! nat x) (V2 t ! nat y) n k \<and> gfx2 t ! k = 1
              then 1 else 0)])) \<and>
   (n \<le> 15 \<longrightarrow>
      (\<forall>row<n. \<forall>b<8. \<forall>row'<n. \<forall>b'<8.
         (cell (vx mod c8_W) (vy mod c8_H) row b = cell (vx mod c8_W) (vy mod c8_H) row' b'
            \<longrightarrow> row = row' \<and> b = b') \<and>
         (cell2 vx vy row b = cell2 vx vy row' b' \<longrightarrow> row = row' \<and> b = b')))"
proof (intro conjI impI)
  assume a: "wf_chip8 s \<and> n \<le> 15"
  then have w: "wf_chip8 s" and n: "n \<le> 15" by simp_all
  from draw_result [OF w n, of vx vy]
  show "\<exists>s'. draw s vx vy n = Some s' \<and> length (gfx s') = 2048 \<and>
         (\<forall>k<2048. gfx s' ! k = gfx s ! k XOR (if sprite_covers s vx vy n k then 1 else 0)) \<and>
         c8_V s' = (c8_V s)[0xF := (if \<exists>k<2048. sprite_covers s vx vy n k \<and> gfx s ! k = 1
                                     then 1 else 0)]"
    by (fastforce simp: wf_chip8_def)
next
  assume "wf_chip8b t \<and> n \<le> 15 \<and> 0 \<le> I2 t \<and> I2 t + int n \<le> 4096 \<and>
          0 \<le> x \<and> x < 16 \<and> 0 \<le> y \<and> y < 16"
  then show "\<exists>t'. drw2 t x y n = Some t' \<and> length (gfx2 t') = 2048 \<and>
         (\<forall>k<2048. gfx2 t' ! k = gfx2 t ! k XOR
             (if sprite_covers2 t (V2 t ! nat x) (V2 t ! nat y) n k then 1 else 0)) \<and>
         V2 t' = (V2 t)[0xF :=
             (if \<exists>k<2048. sprite_covers2 t (V2 t ! nat x) (V2 t ! nat y) n k \<and> gfx2 t ! k = 1
              then 1 else 0)]"
    by (intro drw2_covers) simp_all
next
  assume n: "n \<le> 15"
  have "row = row' \<and> b = b'"
    if "row < n" "b < 8" "row' < n" "b' < 8"
       "cell (vx mod c8_W) (vy mod c8_H) row b = cell (vx mod c8_W) (vy mod c8_H) row' b'"
    for row b row' b'
    using cell_inj [OF that(5)] that(1-4) n by simp
  then show "\<forall>row<n. \<forall>b<8. \<forall>row'<n. \<forall>b'<8.
         (cell (vx mod c8_W) (vy mod c8_H) row b = cell (vx mod c8_W) (vy mod c8_H) row' b'
            \<longrightarrow> row = row' \<and> b = b') \<and>
         (cell2 vx vy row b = cell2 vx vy row' b' \<longrightarrow> row = row' \<and> b = b')"
    unfolding cell2_cell by blast
qed

theorem draw_wraps_witness:
  "wf_chip8 (chip8_init\<lparr>memory := (memory chip8_init)[0x300 := 0xFF, 0x301 := 0xFF, 0x302 := 0xFF],
                        c8_I := 0x300\<rparr>) \<and> (3::nat) \<le> 15 \<and>
   (\<exists>s'. draw (chip8_init\<lparr>memory := (memory chip8_init)[0x300 := 0xFF, 0x301 := 0xFF, 0x302 := 0xFF],
                            c8_I := 0x300\<rparr>) 62 30 3 = Some s' \<and>
          gfx s' ! 1982 = 1 \<and> gfx s' ! 1920 = 1 \<and> gfx s' ! 62 = 1) \<and>
   wf_chip8b (chip8b_init\<lparr>mem := (mem chip8b_init)[0x300 := 0xFF, 0x301 := 0xFF, 0x302 := 0xFF],
                          V2 := (V2 chip8b_init)[0 := 62, 1 := 30], I2 := 0x300\<rparr>) \<and>
   0 \<le> I2 (chip8b_init\<lparr>mem := (mem chip8b_init)[0x300 := 0xFF, 0x301 := 0xFF, 0x302 := 0xFF],
                          V2 := (V2 chip8b_init)[0 := 62, 1 := 30], I2 := 0x300\<rparr>) \<and>
   I2 (chip8b_init\<lparr>mem := (mem chip8b_init)[0x300 := 0xFF, 0x301 := 0xFF, 0x302 := 0xFF],
                   V2 := (V2 chip8b_init)[0 := 62, 1 := 30], I2 := 0x300\<rparr>) + int 3 \<le> 4096 \<and>
   (0::int) \<le> 0 \<and> (0::int) < 16 \<and> (0::int) \<le> 1 \<and> (1::int) < 16 \<and>
   (\<exists>t'. drw2 (chip8b_init\<lparr>mem := (mem chip8b_init)[0x300 := 0xFF, 0x301 := 0xFF, 0x302 := 0xFF],
                            V2 := (V2 chip8b_init)[0 := 62, 1 := 30], I2 := 0x300\<rparr>) 0 1 3 = Some t' \<and>
          gfx2 t' ! 1982 = 1 \<and> gfx2 t' ! 1920 = 1 \<and> gfx2 t' ! 62 = 1) \<and>
   cell (62 mod c8_W) (30 mod c8_H) 0 2 = 1920 \<and> cell2 62 30 2 0 = 62"
proof -
  define s where
    "s = chip8_init\<lparr>memory := (memory chip8_init)[0x300 := 0xFF, 0x301 := 0xFF, 0x302 := 0xFF],
                     c8_I := 0x300\<rparr>"
  define t where
    "t = chip8b_init\<lparr>mem := (mem chip8b_init)[0x300 := 0xFF, 0x301 := 0xFF, 0x302 := 0xFF],
                      V2 := (V2 chip8b_init)[0 := 62, 1 := 30], I2 := 0x300\<rparr>"
  have ws: "wf_chip8 s" unfolding s_def by (rule wf_chip8_edge)
  have gs: "gfx s ! k = 0" if "k < 2048" for k using that unfolding s_def by (rule gfx_edge)
  have cs: "sprite_covers s 62 30 3 1982" "sprite_covers s 62 30 3 1920"
    "sprite_covers s 62 30 3 62"
    unfolding s_def by (rule covers_edge)+
  have wt: "wf_chip8b t" unfolding t_def by (rule wf_chip8b_edge)
  have f: "I2 t = 0x300" "V2 t ! nat 0 = 62" "V2 t ! nat 1 = 30"
    unfolding t_def by (rule edge2_fields)+
  have gt: "gfx2 t ! k = 0" if "k < 2048" for k
    using that unfolding t_def by (rule edge2_fields)
  have ct: "sprite_covers2 t 62 30 3 1982" "sprite_covers2 t 62 30 3 1920"
    "sprite_covers2 t 62 30 3 62"
    unfolding t_def by (rule covers2_edge)+
  have n: "(3::nat) \<le> 15" by simp
  have h: "0 \<le> I2 t" "I2 t + int 3 \<le> 4096"
    "(0::int) \<le> 0" "(0::int) < 16" "(0::int) \<le> 1" "(1::int) < 16"
    by (simp_all add: f)
  note dw = draw_wraps [of s 3 62 30 t 0 1]
  from dw ws n obtain s' where s':
    "draw s 62 30 3 = Some s'"
    "\<forall>k<2048. gfx s' ! k = gfx s ! k XOR (if sprite_covers s 62 30 3 k then 1 else 0)"
    by blast
  from dw wt n h obtain t' where t':
    "drw2 t 0 1 3 = Some t'"
    "\<forall>k<2048. gfx2 t' ! k = gfx2 t ! k XOR
        (if sprite_covers2 t (V2 t ! nat 0) (V2 t ! nat 1) 3 k then 1 else 0)"
    by blast
  have a: "gfx s' ! 1982 = 1" "gfx s' ! 1920 = 1" "gfx s' ! 62 = 1"
    using s'(2) cs by (simp_all add: gs)
  have b: "gfx2 t' ! 1982 = 1" "gfx2 t' ! 1920 = 1" "gfx2 t' ! 62 = 1"
    using t'(2) ct f by (simp_all add: gt)
  from a s'(1) have A: "\<exists>s'. draw s 62 30 3 = Some s' \<and>
          gfx s' ! 1982 = 1 \<and> gfx s' ! 1920 = 1 \<and> gfx s' ! 62 = 1" by blast
  from b t'(1) have B: "\<exists>t'. drw2 t 0 1 3 = Some t' \<and>
          gfx2 t' ! 1982 = 1 \<and> gfx2 t' ! 1920 = 1 \<and> gfx2 t' ! 62 = 1" by blast
  have C: "cell (62 mod c8_W) (30 mod c8_H) 0 2 = 1920" "cell2 62 30 2 0 = 62"
    by (simp_all add: cell_def cell2_def c8_W_def c8_H_def SCR_W_def SCR_H_def)
  show ?thesis
    using ws n A wt h B C unfolding s_def t_def by (intro conjI)
qed

text \<open>
  Claim C1 fails as stated, in both files. An 8-pixel, 3-row sprite drawn at \<open>(62, 30)\<close>
  on an empty display lights the cell at column 0 of row 30 and the cell at column 62 of
  row 0: the columns past the right edge and the row past the bottom edge are drawn, not
  skipped.
\<close>

theorem draw_wraps_past_the_edges:
  "pixel 0 30 (chip8_init\<lparr>memory := (memory chip8_init)[0x300 := 0xFF, 0x301 := 0xFF, 0x302 := 0xFF],
                          c8_I := 0x300\<rparr>) = 0 \<and>
   pixel 62 0 (chip8_init\<lparr>memory := (memory chip8_init)[0x300 := 0xFF, 0x301 := 0xFF, 0x302 := 0xFF],
                          c8_I := 0x300\<rparr>) = 0 \<and>
   map_option (pixel 0 30)
     (draw (chip8_init\<lparr>memory := (memory chip8_init)[0x300 := 0xFF, 0x301 := 0xFF, 0x302 := 0xFF],
                        c8_I := 0x300\<rparr>) 62 30 3) = Some 1 \<and>
   map_option (pixel 62 0)
     (draw (chip8_init\<lparr>memory := (memory chip8_init)[0x300 := 0xFF, 0x301 := 0xFF, 0x302 := 0xFF],
                        c8_I := 0x300\<rparr>) 62 30 3) = Some 1 \<and>
   pixel2 0 30 (chip8b_init\<lparr>mem := (mem chip8b_init)[0x300 := 0xFF, 0x301 := 0xFF, 0x302 := 0xFF],
                            V2 := (V2 chip8b_init)[0 := 62, 1 := 30], I2 := 0x300\<rparr>) = 0 \<and>
   pixel2 62 0 (chip8b_init\<lparr>mem := (mem chip8b_init)[0x300 := 0xFF, 0x301 := 0xFF, 0x302 := 0xFF],
                            V2 := (V2 chip8b_init)[0 := 62, 1 := 30], I2 := 0x300\<rparr>) = 0 \<and>
   map_option (pixel2 0 30)
     (drw2 (chip8b_init\<lparr>mem := (mem chip8b_init)[0x300 := 0xFF, 0x301 := 0xFF, 0x302 := 0xFF],
                        V2 := (V2 chip8b_init)[0 := 62, 1 := 30], I2 := 0x300\<rparr>) 0 1 3) = Some 1 \<and>
   map_option (pixel2 62 0)
     (drw2 (chip8b_init\<lparr>mem := (mem chip8b_init)[0x300 := 0xFF, 0x301 := 0xFF, 0x302 := 0xFF],
                        V2 := (V2 chip8b_init)[0 := 62, 1 := 30], I2 := 0x300\<rparr>) 0 1 3) = Some 1"
proof -
  let ?s = "chip8_init\<lparr>memory := (memory chip8_init)[0x300 := 0xFF, 0x301 := 0xFF, 0x302 := 0xFF],
                            c8_I := 0x300\<rparr>"
  define t where
    "t = chip8b_init\<lparr>mem := (mem chip8b_init)[0x300 := 0xFF, 0x301 := 0xFF, 0x302 := 0xFF],
                      V2 := (V2 chip8b_init)[0 := 62, 1 := 30], I2 := 0x300\<rparr>"
  have n: "(3::nat) \<le> 15" by simp
  from draw_result [OF wf_chip8_edge n, of 62 30] obtain s' where s':
    "draw ?s 62 30 3 = Some s'"
    "\<forall>k<2048. gfx s' ! k = gfx ?s ! k XOR (if sprite_covers ?s 62 30 3 k then 1 else 0)"
    by blast
  have "gfx s' ! 1920 = 1" "gfx s' ! 62 = 1"
    using s'(2) covers_edge gfx_edge by simp_all
  then have "pixel 0 30 s' = 1" "pixel 62 0 s' = 1" by (simp_all add: pixel_def c8_W_def)
  moreover have "pixel 0 30 ?s = 0" "pixel 62 0 ?s = 0"
    using gfx_edge by (simp_all add: pixel_def c8_W_def)
  ultimately have A: "pixel 0 30 ?s = 0" "pixel 62 0 ?s = 0"
    "map_option (pixel 0 30) (draw ?s 62 30 3) = Some 1"
    "map_option (pixel 62 0) (draw ?s 62 30 3) = Some 1"
    using s'(1) by simp_all
  from drw2_edge obtain t' where t':
    "drw2 t 0 1 3 = Some t'" "gfx2 t' ! 1920 = 1" "gfx2 t' ! 62 = 1"
    unfolding t_def by blast
  have gt: "gfx2 t ! k = 0" if "k < 2048" for k
    using that unfolding t_def by (rule edge2_fields)
  have B: "pixel2 0 30 t = 0" "pixel2 62 0 t = 0"
    "map_option (pixel2 0 30) (drw2 t 0 1 3) = Some 1"
    "map_option (pixel2 62 0) (drw2 t 0 1 3) = Some 1"
    using t' by (simp_all add: gt pixel2_def SCR_W_def)
  show ?thesis
    using A B unfolding t_def by (intro conjI)
qed

section \<open>CHIP-8 idempotence\<close>

text \<open>
  Claim C8. \<open>_cls\<close> applied twice gives the same machine state as \<open>_cls\<close> applied once.
  \<open>_draw\<close> applied twice with the same coordinates and row count, the sprite bytes at
  \<open>I\<close> being untouched in between, returns both times and leaves the display buffer as it
  was before the first draw.
\<close>

theorem cls_idempotent_draw_involution:
  "cls (cls s) = cls s \<and>
   (wf_chip8 s \<and> n \<le> 15 \<longrightarrow>
      (\<exists>s1 s2. draw s vx vy n = Some s1 \<and> draw s1 vx vy n = Some s2 \<and> gfx s2 = gfx s))"
  using cls_twice [of s] draw_twice [of s n vx vy] by blast

theorem cls_idempotent_draw_involution_witness:
  "wf_chip8 (chip8_init\<lparr>memory := (memory chip8_init)[0x300 := 0xFF, 0x301 := 0xFF, 0x302 := 0xFF],
                        c8_I := 0x300\<rparr>) \<and> (3::nat) \<le> 15 \<and>
   (\<exists>s1 s2.
      draw (chip8_init\<lparr>memory := (memory chip8_init)[0x300 := 0xFF, 0x301 := 0xFF, 0x302 := 0xFF],
                        c8_I := 0x300\<rparr>) 62 30 3 = Some s1 \<and>
      draw s1 62 30 3 = Some s2 \<and>
      gfx s2 = gfx (chip8_init\<lparr>memory := (memory chip8_init)[0x300 := 0xFF, 0x301 := 0xFF, 0x302 := 0xFF],
                                c8_I := 0x300\<rparr>) \<and>
      pixel 62 30 s1 = 1 \<and> pixel 62 30 s2 = 0)"
proof -
  let ?s = "chip8_init\<lparr>memory := (memory chip8_init)[0x300 := 0xFF, 0x301 := 0xFF, 0x302 := 0xFF],
                            c8_I := 0x300\<rparr>"
  have n: "(3::nat) \<le> 15" by simp
  from cls_idempotent_draw_involution [of ?s 3 62 30] wf_chip8_edge n obtain s1 s2 where d:
    "draw ?s 62 30 3 = Some s1" "draw s1 62 30 3 = Some s2" "gfx s2 = gfx ?s" by blast
  from draw_result [OF wf_chip8_edge n, of 62 30] d(1) have
    "\<forall>k<2048. gfx s1 ! k = gfx ?s ! k XOR (if sprite_covers ?s 62 30 3 k then 1 else 0)"
    by auto
  then have "gfx s1 ! 1982 = 1" using covers_edge gfx_edge by simp
  then have "pixel 62 30 s1 = 1" by (simp add: pixel_def c8_W_def)
  moreover have "pixel 62 30 s2 = 0" using d(3) gfx_edge by (simp add: pixel_def c8_W_def)
  ultimately show ?thesis using d wf_chip8_edge n by blast
qed

end
